theory Spec2Isabelle
  imports Main
begin

section \<open>PUNCHCARD: a shallow embedding of \<^verbatim>\<open>PUNCHCARD.c\<close>\<close>

text \<open>
  The C program reads 12-hour start and end times from standard input, sums the time worked
  over the pairs of one line and rounds the day's total to the nearest quarter-hour.

  Conventions of the embedding.
  \<^item> A C \<^verbatim>\<open>int\<close> is an \<^typ>\<open>int\<close>. Every value the properties below speak about is
    small (hours up to 24, minutes up to 118); the embedding says nothing about runs in which
    a C \<^verbatim>\<open>int\<close> would overflow.
  \<^item> A function that writes through pointer parameters takes the values its arguments
    point to and returns the values stored there afterwards.
  \<^item> Standard input is the list of the characters still unread; end-of-input is the empty
    list. Standard output is the list of the \<^verbatim>\<open>printf_s\<close> calls made so far, one
    constructor per call site, carrying the values printed.
  \<^item> A local variable declared without an initialiser holds an unspecified value. The
    world carries a supply of such values, \<open>indet\<close>, and the number of loop bodies entered so
    far, \<open>frames\<close>: the body entered as number \<open>n\<close> finds \<open>indet n\<close> in its locals
    (\<open>startHour0\<close> is what \<^verbatim>\<open>startHour\<close> holds before anything is stored in it).
\<close>

subsection \<open>Integer division of C\<close>

text \<open>C's \<^verbatim>\<open>/\<close> on \<^verbatim>\<open>int\<close> truncates towards zero; HOL's \<open>div\<close> rounds down.\<close>

definition c_div :: "int \<Rightarrow> int \<Rightarrow> int" where
  "c_div a b = sgn a * sgn b * (\<bar>a\<bar> div \<bar>b\<bar>)"

subsection \<open>The world: input, output, unspecified values\<close>

datatype printed =
    Banner
  | Prompt
  | HourTooSmall int
  | HourTooBig int
  | MinuteTooSmall int
  | MinuteTooBig int
  | UnrecognizedMeridiem char
  | StartTimeWrong
  | EndTimeWrong
  | BlankLine
  | EchoStart int int char
  | EchoEnd int int char
  | ActualTime int int
  | ActualTotalTime int int
  | RoundedTotalTime int int

record locals =
  startHour0 :: int
  startMinute0 :: int
  startMeridiem0 :: char
  endHour0 :: int
  endMinute0 :: int
  endMeridiem0 :: char

record world =
  stdin :: "char list"
  stdout :: "printed list"
  indet :: "nat \<Rightarrow> locals"
  frames :: nat

definition printf_s :: "printed list \<Rightarrow> world \<Rightarrow> world" where
  "printf_s msgs w = w\<lparr>stdout := stdout w @ msgs\<rparr>"

definition EOF :: int where
  "EOF = - 1"

definition newline :: char where
  "newline = CHR 0x0A"

subsection \<open>\<^verbatim>\<open>clearBufferJunk\<close>\<close>

text \<open>
  The \<^verbatim>\<open>while\<close> loop of \<^verbatim>\<open>clearBufferJunk\<close>: \<^verbatim>\<open>getchar()\<close> yields \<^verbatim>\<open>EOF\<close> on the
  empty input and otherwise the next character as a value in \<open>[0, 255]\<close>. The result is the
  last value of \<^verbatim>\<open>lastCharacter\<close> and the input left. \<open>target\<close> is the \<^verbatim>\<open>char\<close> argument
  as promoted to \<^verbatim>\<open>int\<close> in the comparisons, so both a signed and an unsigned \<^verbatim>\<open>char\<close>
  are covered.
\<close>

fun clearBufferJunk_loop :: "int \<Rightarrow> char list \<Rightarrow> int \<times> char list" where
  "clearBufferJunk_loop target [] = (EOF, [])"
| "clearBufferJunk_loop target (c # cs) =
     (let lastCharacter = (of_char c :: int)
      in if lastCharacter \<noteq> target \<and> lastCharacter \<noteq> EOF \<and> lastCharacter \<noteq> of_char newline
         then clearBufferJunk_loop target cs
         else (lastCharacter, cs))"

definition clearBufferJunk :: "int \<Rightarrow> world \<Rightarrow> int \<times> world" where
  "clearBufferJunk target w =
     (let (lastCharacter, rest) = clearBufferJunk_loop target (stdin w);
          w' = w\<lparr>stdin := rest\<rparr>
      in if lastCharacter = EOF then (- 1, w')
         else if lastCharacter = target \<and> target \<noteq> of_char newline then (0, w')
         else if lastCharacter = of_char newline then (1, w')
         else (2, w'))"

subsection \<open>\<^verbatim>\<open>scanf_s(" %d : %d %c", hour, minute, meridiem)\<close>\<close>

text \<open>
  The library call is modelled by the meaning of its directives: white space in the format
  skips any white space of the input (newlines too); \<^verbatim>\<open>%d\<close> skips white space, takes an
  optional sign and the longest run of decimal digits, and fails when there is no digit;
  \<^verbatim>\<open>:\<close> must match; \<^verbatim>\<open>%c\<close> takes one character. The call stops at the first directive
  that fails: the variables of the directives not reached keep the values they had. The
  result of the call is not used by the program and is left out.

  Two things are outside the model. The source passes no buffer size for \<^verbatim>\<open>%c\<close>, which
  \<^verbatim>\<open>scanf_s\<close> expects; the call is read as \<^verbatim>\<open>scanf\<close> reads the same format. A run of
  digits that does not fit a C \<^verbatim>\<open>int\<close> is given its mathematical value.
\<close>

definition isspace :: "char \<Rightarrow> bool" where
  "isspace c = (c = CHR '' '' \<or> c = CHR 0x09 \<or> c = CHR 0x0A \<or> c = CHR 0x0B
                \<or> c = CHR 0x0C \<or> c = CHR 0x0D)"

definition isdigit :: "char \<Rightarrow> bool" where
  "isdigit c = (48 \<le> (of_char c :: int) \<and> (of_char c :: int) \<le> 57)"

definition digits_value :: "char list \<Rightarrow> int" where
  "digits_value ds = foldl (\<lambda>v c. 10 * v + (of_char c - 48)) 0 ds"

definition scan_d :: "char list \<Rightarrow> int option \<times> char list" where
  "scan_d inp =
     (let s = dropWhile isspace inp;
          (neg, s1) = (case s of
                         [] \<Rightarrow> (False, [])
                       | c # cs \<Rightarrow> if c = CHR ''-'' then (True, cs)
                                  else if c = CHR ''+'' then (False, cs)
                                  else (False, s));
          ds = takeWhile isdigit s1
      in if ds = [] then (None, s1)
         else (Some (if neg then - digits_value ds else digits_value ds),
               dropWhile isdigit s1))"

definition scanf_time :: "int \<Rightarrow> int \<Rightarrow> char \<Rightarrow> char list \<Rightarrow> int \<times> int \<times> char \<times> char list" where
  "scanf_time hour minute meridiem inp =
     (case scan_d (dropWhile isspace inp) of
        (None, r1) \<Rightarrow> (hour, minute, meridiem, r1)
      | (Some h, r1) \<Rightarrow>
          (case dropWhile isspace r1 of
             [] \<Rightarrow> (h, minute, meridiem, [])
           | c # r2 \<Rightarrow>
               if c \<noteq> CHR '':'' then (h, minute, meridiem, c # r2)
               else (case scan_d (dropWhile isspace r2) of
                       (None, r3) \<Rightarrow> (h, minute, meridiem, r3)
                     | (Some m, r3) \<Rightarrow>
                         (case dropWhile isspace r3 of
                            [] \<Rightarrow> (h, m, meridiem, [])
                          | x # r4 \<Rightarrow> (h, m, x, r4)))))"

subsection \<open>\<^verbatim>\<open>readTime\<close>\<close>

text \<open>The test a time must pass in \<^verbatim>\<open>readTime\<close> to count as valid.\<close>

definition validTime :: "int \<Rightarrow> int \<Rightarrow> char \<Rightarrow> bool" where
  "validTime hour minute meridiem =
     (hour > 0 \<and> hour < 13 \<and> minute > - 1 \<and> minute < 60
      \<and> (meridiem = CHR ''a'' \<or> meridiem = CHR ''p''))"

definition readTime :: "int \<Rightarrow> int \<Rightarrow> char \<Rightarrow> world \<Rightarrow> int \<times> int \<times> int \<times> char \<times> world" where
  "readTime hour0 minute0 meridiem0 w =
     (let (hour, minute, scanned, rest) = scanf_time hour0 minute0 meridiem0 (stdin w);
          w1 = w\<lparr>stdin := rest\<rparr>;
          meridiem = (if scanned = CHR ''A'' then CHR ''a''
                      else if scanned = CHR ''P'' then CHR ''p'' else scanned)
      in if validTime hour minute meridiem
         then (0, hour, minute, meridiem, w1)
         else (- 1, hour, minute, meridiem,
               printf_s ((if hour \<le> 0 then [HourTooSmall hour] else [])
                       @ (if hour \<ge> 13 then [HourTooBig hour] else [])
                       @ (if minute \<le> - 1 then [MinuteTooSmall minute] else [])
                       @ (if minute \<ge> 60 then [MinuteTooBig minute] else [])
                       @ (if meridiem \<noteq> CHR ''a'' \<and> meridiem \<noteq> CHR ''p''
                          then [UnrecognizedMeridiem meridiem] else [])) w1))"

subsection \<open>\<^verbatim>\<open>toMilitaryTime\<close> and \<^verbatim>\<open>roundTime\<close>\<close>

definition toMilitaryTime :: "int \<Rightarrow> char \<Rightarrow> int" where
  "toMilitaryTime hour meridiem =
     (if hour = 12 then (if meridiem = CHR ''a'' then hour + 12 else hour)
      else (if meridiem = CHR ''p'' then hour + 12 else hour))"

text \<open>
  The program keeps a time as an hour and a minute. \<open>linearTime\<close> is the number of minutes
  that the 24-hour time made by \<^verbatim>\<open>toMilitaryTime\<close> stands for: 60 for each hour, plus the
  minutes.
\<close>

definition linearTime :: "int \<Rightarrow> int \<Rightarrow> char \<Rightarrow> int" where
  "linearTime hour minute meridiem = toMilitaryTime hour meridiem * 60 + minute"

definition roundTime :: "int \<Rightarrow> int \<Rightarrow> int \<times> int" where
  "roundTime hourDifference minuteDifference =
     (let minuteDifference' = c_div (minuteDifference + 7) 15 * 15
      in if minuteDifference' = 60 then (hourDifference + 1, 0)
         else (hourDifference, minuteDifference'))"

subsection \<open>\<^verbatim>\<open>readTimesForDay\<close>\<close>

text \<open>
  The difference of the end time and the start time, as \<^verbatim>\<open>readTimesForDay\<close> computes it
  from the two times it has read (both converted to 24-hour time first).
\<close>

definition timeDifference :: "int \<Rightarrow> int \<Rightarrow> char \<Rightarrow> int \<Rightarrow> int \<Rightarrow> char \<Rightarrow> int \<times> int" where
  "timeDifference startHour startMinute startMeridiem endHour endMinute endMeridiem =
     (let startHour' = toMilitaryTime startHour startMeridiem;
          endHour' = toMilitaryTime endHour endMeridiem;
          hourDifference = endHour' - startHour';
          minuteDifference = endMinute - startMinute;
          (hourDifference, minuteDifference) =
             (if minuteDifference < 0 then (hourDifference - 1, minuteDifference + 60)
              else (hourDifference, minuteDifference));
          hourDifference = (if hourDifference < 0 then hourDifference + 24 else hourDifference)
      in (hourDifference, minuteDifference))"

text \<open>Adding one pair's difference to the totals of the day.\<close>

definition addToTotal :: "int \<Rightarrow> int \<Rightarrow> int \<Rightarrow> int \<Rightarrow> int \<times> int" where
  "addToTotal totalHours totalMinutes hourDifference minuteDifference =
     (let totalMinutes' = totalMinutes + minuteDifference;
          totalHours' = totalHours + hourDifference
      in if totalMinutes' \<ge> 60 then (totalHours' + 1, totalMinutes' - 60)
         else (totalHours', totalMinutes'))"

text \<open>
  One pass through the body of the \<^verbatim>\<open>while\<close> loop. It either leaves the function with a
  \<^verbatim>\<open>return\<close> or reaches the end of the body with a value of \<^verbatim>\<open>endFound\<close>. The result
  carries the totals and the world as they are then.
\<close>

datatype pass = Returned int | EndFound int

definition readTimesForDay_body :: "int \<Rightarrow> int \<Rightarrow> world \<Rightarrow> pass \<times> int \<times> int \<times> world" where
  "readTimesForDay_body totalHours totalMinutes w =
     (let l = indet w (frames w);
          w0 = w\<lparr>frames := Suc (frames w)\<rparr>;
          (r1, startHour, startMinute, startMeridiem, w1) =
             readTime (startHour0 l) (startMinute0 l) (startMeridiem0 l) w0
      in if r1 = - 1
         then (Returned (- 1), totalHours, totalMinutes,
               snd (clearBufferJunk (of_char newline) (printf_s [StartTimeWrong] w1)))
         else
           let w2 = snd (clearBufferJunk (of_char CHR ''-'') w1);
               (r2, endHour, endMinute, endMeridiem, w3) =
                  readTime (endHour0 l) (endMinute0 l) (endMeridiem0 l) w2
           in if r2 = - 1
              then (Returned (- 1), totalHours, totalMinutes,
                    snd (clearBufferJunk (of_char newline) (printf_s [EndTimeWrong] w3)))
              else
                let w4 = printf_s [BlankLine, EchoStart startHour startMinute startMeridiem,
                                   EchoEnd endHour endMinute endMeridiem] w3
                in if startHour = endHour \<and> startMinute = endMinute
                      \<and> startMeridiem = endMeridiem
                   then (Returned 0, totalHours, totalMinutes, w4)
                   else
                     let (hourDifference, minuteDifference) =
                            timeDifference startHour startMinute startMeridiem
                                           endHour endMinute endMeridiem;
                         (totalHours', totalMinutes') =
                            addToTotal totalHours totalMinutes hourDifference minuteDifference;
                         w5 = printf_s [ActualTime hourDifference minuteDifference] w4;
                         (endFound, w6) = clearBufferJunk (of_char CHR '','') w5
                     in (EndFound endFound, totalHours', totalMinutes', w6))"

text \<open>
  Every function that reads consumes input and never adds to it; the scan of
  \<^verbatim>\<open>clearBufferJunk\<close> consumes at least one character unless it stops at end-of-input.
\<close>

lemma clearBufferJunk_loop_le:
  "length (snd (clearBufferJunk_loop target xs)) \<le> length xs"
  by (induction xs) (auto simp: Let_def)

lemma clearBufferJunk_loop_less:
  "fst (clearBufferJunk_loop target xs) \<noteq> EOF \<Longrightarrow>
   length (snd (clearBufferJunk_loop target xs)) < length xs"
  by (induction xs) (auto simp: Let_def)

lemma stdin_clearBufferJunk:
  "stdin (snd (clearBufferJunk target w)) = snd (clearBufferJunk_loop target (stdin w))"
  by (cases "clearBufferJunk_loop target (stdin w)") (simp add: clearBufferJunk_def Let_def)

lemma clearBufferJunk_eof:
  "fst (clearBufferJunk target w) = - 1 \<longleftrightarrow> fst (clearBufferJunk_loop target (stdin w)) = EOF"
  by (cases "clearBufferJunk_loop target (stdin w)") (simp add: clearBufferJunk_def Let_def)

lemma clearBufferJunk_stdin_le:
  "length (stdin (snd (clearBufferJunk target w))) \<le> length (stdin w)"
  by (simp add: stdin_clearBufferJunk clearBufferJunk_loop_le)

lemma clearBufferJunk_stdin_less:
  "fst (clearBufferJunk target w) \<noteq> - 1 \<Longrightarrow>
   length (stdin (snd (clearBufferJunk target w))) < length (stdin w)"
  by (simp add: stdin_clearBufferJunk clearBufferJunk_eof clearBufferJunk_loop_less)

lemma scan_d_le: "length (snd (scan_d inp)) \<le> length inp"
proof -
  define s where "s = dropWhile isspace inp"
  have a: "length s \<le> length inp"
    unfolding s_def by (rule length_dropWhile_le)
  have b: "length (dropWhile isdigit t) \<le> length t" for t
    by (rule length_dropWhile_le)
  show ?thesis
  proof (cases s)
    case Nil
    then show ?thesis by (simp add: scan_d_def Let_def s_def [symmetric])
  next
    case (Cons c cs)
    have "length (dropWhile isdigit cs) \<le> length inp" "length (dropWhile isdigit s) \<le> length inp"
         "length cs \<le> length inp"
      using a b [of cs] b [of s] Cons by simp_all
    then show ?thesis
      using a Cons by (simp add: scan_d_def Let_def s_def [symmetric])
  qed
qed

lemma scan_d_le': "scan_d inp = (r, rest) \<Longrightarrow> length rest \<le> length inp"
  using scan_d_le [of inp] by simp

lemma scan_d_ws_le: "scan_d (dropWhile isspace inp) = (r, rest) \<Longrightarrow> length rest \<le> length inp"
  using scan_d_le [of "dropWhile isspace inp"] length_dropWhile_le [of isspace inp] by simp

lemma dropWhile_Cons_le: "dropWhile P xs = y # ys \<Longrightarrow> length ys < length xs"
  using length_dropWhile_le [of P xs] by simp

lemma scanf_time_le:
  "length (snd (snd (snd (scanf_time h m c inp)))) \<le> length inp"
proof -
  obtain a r1 where s1: "scan_d (dropWhile isspace inp) = (a, r1)" by (cases "scan_d (dropWhile isspace inp)")
  have l1: "length r1 \<le> length inp" using scan_d_ws_le [OF s1] .
  show ?thesis
  proof (cases a)
    case None
    then show ?thesis using l1 by (simp add: scanf_time_def s1)
  next
    case hv: (Some hv)
    show ?thesis
    proof (cases "dropWhile isspace r1")
      case Nil
      then show ?thesis by (simp add: scanf_time_def s1 hv Nil)
    next
      case c2: (Cons x r2)
      have l2: "length r2 < length inp" using dropWhile_Cons_le [OF c2] l1 by simp
      obtain b r3 where s2: "scan_d (dropWhile isspace r2) = (b, r3)" by (cases "scan_d (dropWhile isspace r2)")
      have l3: "length r3 < length inp" using scan_d_ws_le [OF s2] l2 by simp
      show ?thesis
      proof (cases "x = CHR '':''")
        case False
        then show ?thesis using l2 by (simp add: scanf_time_def s1 hv c2)
      next
        case True
        show ?thesis
        proof (cases b)
          case None
          then show ?thesis using l3 by (simp add: scanf_time_def s1 hv c2 True s2)
        next
          case mv: (Some mv)
          show ?thesis
          proof (cases "dropWhile isspace r3")
            case Nil
            then show ?thesis by (simp add: scanf_time_def s1 hv c2 True s2 mv Nil)
          next
            case c4: (Cons y r4)
            have "length r4 < length inp" using dropWhile_Cons_le [OF c4] l3 by simp
            then show ?thesis by (simp add: scanf_time_def s1 hv c2 True s2 mv c4)
          qed
        qed
      qed
    qed
  qed
qed

lemma stdin_readTime:
  "stdin (snd (snd (snd (snd (readTime h m c w))))) = snd (snd (snd (scanf_time h m c (stdin w))))"
  by (cases "scanf_time h m c (stdin w)") (simp add: readTime_def Let_def printf_s_def split: prod.splits)

lemma readTime_stdin_le:
  "readTime h m c w = (r, h', m', c', w') \<Longrightarrow> length (stdin w') \<le> length (stdin w)"
  using stdin_readTime [of h m c w] scanf_time_le [of h m c "stdin w"] by simp

lemma body_EndFound_less:
  assumes "readTimesForDay_body th tm w = (EndFound e, th', tm', w')" "e \<noteq> - 1"
  shows "length (stdin w') < length (stdin w)"
proof -
  let ?l = "indet w (frames w)"
  let ?w0 = "w\<lparr>frames := Suc (frames w)\<rparr>"
  obtain r1 sh sm sc w1 where rt1: "readTime (startHour0 ?l) (startMinute0 ?l) (startMeridiem0 ?l) ?w0 = (r1, sh, sm, sc, w1)"
    by (metis prod_cases5)
  let ?w2 = "snd (clearBufferJunk (of_char CHR ''-'') w1)"
  obtain r2 eh em ec w3 where rt2: "readTime (endHour0 ?l) (endMinute0 ?l) (endMeridiem0 ?l) ?w2 = (r2, eh, em, ec, w3)"
    by (metis prod_cases5)
  let ?w4 = "printf_s [BlankLine, EchoStart sh sm sc, EchoEnd eh em ec] w3"
  obtain hd md where td: "timeDifference sh sm sc eh em ec = (hd, md)" by (cases "timeDifference sh sm sc eh em ec")
  let ?w5 = "printf_s [ActualTime hd md] ?w4"
  have l1: "length (stdin w1) \<le> length (stdin w)" using readTime_stdin_le [OF rt1] by simp
  have l2: "length (stdin ?w2) \<le> length (stdin w)" using clearBufferJunk_stdin_le [of "of_char CHR ''-''" w1] l1 by simp
  have l3: "length (stdin w3) \<le> length (stdin w)" using readTime_stdin_le [OF rt2] l2 by simp
  have l5: "length (stdin ?w5) \<le> length (stdin w)" using l3 by (simp add: printf_s_def)
  from assms(1) have "clearBufferJunk (of_char CHR '','') ?w5 = (e, w')"
    using rt1 rt2 td
    by (simp add: readTimesForDay_body_def Let_def split: if_splits prod.splits)
  then show ?thesis
    using clearBufferJunk_stdin_less [of "of_char CHR '',''" ?w5] assms(2) l5 by simp
qed

text \<open>
  The \<^verbatim>\<open>while\<close> loop. \<^verbatim>\<open>endFound\<close> starts as 0, so the body is always entered once;
  afterwards the loop goes on while the last \<^verbatim>\<open>endFound\<close> is neither 1 nor -1. A pass
  that goes on has consumed a character, so the loop ends on every input.
\<close>

function readTimesForDay_loop :: "int \<Rightarrow> int \<Rightarrow> world \<Rightarrow> int \<times> int \<times> int \<times> world" where
  "readTimesForDay_loop totalHours totalMinutes w =
     (case readTimesForDay_body totalHours totalMinutes w of
        (Returned r, totalHours', totalMinutes', w') \<Rightarrow> (r, totalHours', totalMinutes', w')
      | (EndFound endFound, totalHours', totalMinutes', w') \<Rightarrow>
          if endFound \<noteq> 1 \<and> endFound \<noteq> - 1
          then readTimesForDay_loop totalHours' totalMinutes' w'
          else (1, totalHours', totalMinutes', w'))"
  by pat_completeness auto
termination
proof (relation "measure (\<lambda>(th, tm, w). length (stdin w))")
  show "wf (measure (\<lambda>(th, tm, w). length (stdin w)))" by simp
next
  fix totalHours totalMinutes w x y x2 xa ya xb yb
  assume "(x, y) = readTimesForDay_body totalHours totalMinutes w"
    and "x = EndFound x2" and "(xa, ya) = y" and "(xb, yb) = ya"
    and c: "x2 \<noteq> 1 \<and> x2 \<noteq> - 1"
  then have "readTimesForDay_body totalHours totalMinutes w = (EndFound x2, xa, xb, yb)"
    by simp
  from body_EndFound_less [OF this] c
  show "((xa, xb, yb), totalHours, totalMinutes, w) \<in> measure (\<lambda>(th, tm, w). length (stdin w))"
    by simp
qed

declare readTimesForDay_loop.simps [simp del]

definition readTimesForDay :: "int \<Rightarrow> int \<Rightarrow> world \<Rightarrow> int \<times> int \<times> int \<times> world" where
  "readTimesForDay totalHours totalMinutes w = readTimesForDay_loop totalHours totalMinutes w"

subsection \<open>\<^verbatim>\<open>main\<close>\<close>

text \<open>
  One pass through the body of the loop of \<^verbatim>\<open>main\<close>: the totals start at 0, the day is
  read, and unless the day was abandoned (\<open>- 1\<close>) its total is printed, rounded and printed
  again. The result is the new value of \<^verbatim>\<open>continueRunning\<close>. The rounded total is a
  \<^verbatim>\<open>float\<close> in the program; the embedding records the hours and minutes it is computed
  from.
\<close>

definition main_body :: "world \<Rightarrow> int \<times> world" where
  "main_body w =
     (let w1 = printf_s [Prompt] w;
          (continueRunning, totalHours, totalMinutes, w2) = readTimesForDay 0 0 w1
      in if continueRunning = - 1 then (1, w2)
         else
           let w3 = printf_s [ActualTotalTime totalHours totalMinutes] w2;
               (totalHours', totalMinutes') = roundTime totalHours totalMinutes;
               w4 = printf_s [RoundedTotalTime totalHours' totalMinutes'] w3
           in (continueRunning, w4))"

text \<open>
  The loop of \<^verbatim>\<open>main\<close> may run forever: \<open>None\<close> is a run that never returns.
  \<^verbatim>\<open>continueRunning\<close> starts as 1, so the body is always entered once.
\<close>

partial_function (option) main_loop :: "world \<Rightarrow> world option" where
  "main_loop w =
     (case main_body w of
        (continueRunning, w') \<Rightarrow> if continueRunning \<noteq> 0 then main_loop w' else Some w')"

text \<open>\<^verbatim>\<open>main\<close> returns its exit status and the final world, when it returns.\<close>

definition main :: "world \<Rightarrow> (int \<times> world) option" where
  "main w = map_option (\<lambda>w'. (0, w')) (main_loop (printf_s [Banner] w))"

subsection \<open>A world at the start of a run\<close>

text \<open>
  The world in which the program starts on the input \<open>inp\<close>: nothing printed yet, and
  every unspecified value zero (an uninitialised \<^verbatim>\<open>int\<close> reads as 0, an uninitialised
  \<^verbatim>\<open>char\<close> as the null character).
\<close>

definition zero_locals :: locals where
  "zero_locals = \<lparr>startHour0 = 0, startMinute0 = 0, startMeridiem0 = CHR 0x00,
                   endHour0 = 0, endMinute0 = 0, endMeridiem0 = CHR 0x00\<rparr>"

definition initial_world :: "string \<Rightarrow> world" where
  "initial_world inp = \<lparr>stdin = inp, stdout = [], indet = (\<lambda>_. zero_locals), frames = 0\<rparr>"

text \<open>
  The same kind of world later in a run: \<open>inp\<close> is still unread, \<open>out\<close> has been printed
  and \<open>n\<close> passes have been entered.
\<close>

definition zero_world :: "string \<Rightarrow> printed list \<Rightarrow> nat \<Rightarrow> world" where
  "zero_world inp out n = \<lparr>stdin = inp, stdout = out, indet = (\<lambda>_. zero_locals), frames = n\<rparr>"



subsection \<open>Reading the output\<close>

text \<open>
  The minutes that a printed line reports as the actual time worked of one pair; other
  lines report none.
\<close>

fun worked :: "printed \<Rightarrow> int" where
  "worked (ActualTime hours minutes) = hours * 60 + minutes"
| "worked _ = 0"

text \<open>
  The totals and the world at the start of pass \<open>n + 1\<close> of the loop of
  \<^verbatim>\<open>readTimesForDay\<close>, when the loop gets that far: each of the first \<open>n\<close> passes has read a
  pair, added its difference and found a comma after it.
\<close>

fun loop_state :: "nat \<Rightarrow> int \<Rightarrow> int \<Rightarrow> world \<Rightarrow> (int \<times> int \<times> world) option" where
  "loop_state 0 totalHours totalMinutes w = Some (totalHours, totalMinutes, w)"
| "loop_state (Suc n) totalHours totalMinutes w =
     (case readTimesForDay_body totalHours totalMinutes w of
        (Returned r, totalHours', totalMinutes', w') \<Rightarrow> None
      | (EndFound endFound, totalHours', totalMinutes', w') \<Rightarrow>
          if endFound \<noteq> 1 \<and> endFound \<noteq> - 1
          then loop_state n totalHours' totalMinutes' w'
          else None)"

text \<open>
  The world at the start of day \<open>k + 1\<close> of the loop of \<^verbatim>\<open>main\<close>, when the program gets
  that far: none of the first \<open>k\<close> days has set \<^verbatim>\<open>continueRunning\<close> to 0.
\<close>

fun day_state :: "nat \<Rightarrow> world \<Rightarrow> world option" where
  "day_state 0 w = Some w"
| "day_state (Suc k) w =
     (case main_body w of
        (continueRunning, w') \<Rightarrow> if continueRunning \<noteq> 0 then day_state k w' else None)"



section \<open>Reference definitions\<close>

text \<open>
  The linear time of a clock time as the specification words it: 12 AM is midnight (0), 12 PM
  is noon (720), any other hour counts 60 minutes, plus 720 in the afternoon; then the
  minutes are added. It is compared below with what the program computes.
\<close>

definition toLinear_spec :: "int \<Rightarrow> int \<Rightarrow> char \<Rightarrow> int" where
  "toLinear_spec hour minute meridiem =
     (if hour = 12 then (if meridiem = CHR ''a'' then 0 else 720)
      else hour * 60 + (if meridiem = CHR ''p'' then 720 else 0)) + minute"

section \<open>Properties\<close>

subsection \<open>Scanning for a delimiter\<close>

lemma of_char_nonneg: "(0::int) \<le> of_char c"
  by (metis of_nat_0_le_iff of_nat_of_char)

lemma of_char_not_EOF: "(of_char c :: int) \<noteq> EOF"
  using of_char_nonneg [of c] by (simp add: EOF_def)

lemma clearBufferJunk_loop_dropWhile:
  "clearBufferJunk_loop target xs =
     (case dropWhile (\<lambda>c. of_char c \<noteq> target \<and> c \<noteq> newline) xs of
        [] \<Rightarrow> (EOF, [])
      | c # cs \<Rightarrow> (of_char c, cs))"
  by (induction xs) (simp_all add: Let_def of_char_not_EOF)

lemma clearBufferJunk_dropWhile:
  "clearBufferJunk target w =
       (case dropWhile (\<lambda>c. of_char c \<noteq> target \<and> c \<noteq> newline) (stdin w) of
          [] \<Rightarrow> (- 1, w\<lparr>stdin := []\<rparr>)
        | c # cs \<Rightarrow> (if c = newline then 1 else 0, w\<lparr>stdin := cs\<rparr>))"
proof (cases "dropWhile (\<lambda>c. of_char c \<noteq> target \<and> c \<noteq> newline) (stdin w)")
  case Nil
  then show ?thesis
    by (simp add: clearBufferJunk_def clearBufferJunk_loop_dropWhile Nil)
next
  case (Cons c cs)
  have "\<not> (of_char c \<noteq> target \<and> c \<noteq> newline)"
    using hd_dropWhile [of "\<lambda>c. of_char c \<noteq> target \<and> c \<noteq> newline" "stdin w"] Cons by simp
  then show ?thesis
    using of_char_not_EOF [of c]
    by (auto simp add: clearBufferJunk_def clearBufferJunk_loop_dropWhile Cons Let_def)
qed

text \<open>
  Claim C10. For every target character and every input, \<^verbatim>\<open>clearBufferJunk\<close> returns only
  -1 (stopped by end-of-input), 0 (stopped by the target) or 1 (stopped by a newline); the
  last branch, which returns 2, is never taken; and when the target is the newline itself, a
  stop at a newline counts as 1 and never as 0. The scan stops at the first character that
  is the target or a newline and consumes it; without such a character it consumes
  everything.
\<close>

theorem clearBufferJunk_classifies:
  "fst (clearBufferJunk target w) \<in> {- 1, 0, 1}
   \<and> fst (clearBufferJunk target w) \<noteq> 2
   \<and> fst (clearBufferJunk (of_char newline) w) \<in> {- 1, 1}
   \<and> clearBufferJunk target w =
       (case dropWhile (\<lambda>c. of_char c \<noteq> target \<and> c \<noteq> newline) (stdin w) of
          [] \<Rightarrow> (- 1, w\<lparr>stdin := []\<rparr>)
        | c # cs \<Rightarrow> (if c = newline then 1 else 0, w\<lparr>stdin := cs\<rparr>))"
proof -
  have a: "fst (clearBufferJunk t w) \<in> {- 1, 0, 1}" for t
    by (simp add: clearBufferJunk_dropWhile split: list.split)
  have b: "fst (clearBufferJunk (of_char newline) w) \<in> {- 1, 1}"
  proof (cases "dropWhile (\<lambda>c. c \<noteq> newline) (stdin w)")
    case Nil
    then show ?thesis by (simp add: clearBufferJunk_dropWhile Nil)
  next
    case (Cons c cs)
    have "c = newline"
      using hd_dropWhile [of "\<lambda>c. c \<noteq> newline" "stdin w"] Cons by simp
    then show ?thesis by (simp add: clearBufferJunk_dropWhile Cons)
  qed
  from a [of target] have c: "fst (clearBufferJunk target w) \<noteq> 2" by auto
  show ?thesis
    by (intro conjI) (rule a, rule c, rule b, rule clearBufferJunk_dropWhile)
qed

subsection \<open>Rounding to the quarter-hour\<close>

lemma c_div_nonneg: "0 \<le> a \<Longrightarrow> 0 < b \<Longrightarrow> c_div a b = a div b"
  by (cases "a = 0") (simp_all add: c_div_def)

lemma quarter_table:
  assumes "0 \<le> (m::int)" and "m \<le> 59"
  shows "(m + 7) div 15 * 15 =
           (if m \<le> 7 then 0 else if m \<le> 22 then 15
            else if m \<le> 37 then 30 else if m \<le> 52 then 45 else 60)"
proof -
  consider "m \<le> 7" | "8 \<le> m" "m \<le> 22" | "23 \<le> m" "m \<le> 37"
    | "38 \<le> m" "m \<le> 52" | "53 \<le> m"
    by linarith
  then show ?thesis
  proof cases
    case 1
    then show ?thesis using assms by simp
  next
    case 2
    then have "(m + 7) div 15 = 1" by arith
    then show ?thesis using 2 by simp
  next
    case 3
    then have "(m + 7) div 15 = 2" by arith
    then show ?thesis using 3 by simp
  next
    case 4
    then have "(m + 7) div 15 = 3" by arith
    then show ?thesis using 4 by simp
  next
    case 5
    then have "(m + 7) div 15 = 4" using assms by arith
    then show ?thesis using 5 by simp
  qed
qed

text \<open>
  Claim C2. For minutes in \<open>[0, 59]\<close>, \<^verbatim>\<open>roundTime\<close> replaces the minutes by
  \<open>(minutes + 7) div 15 * 15\<close>: 0 to 7 give 0, 8 to 22 give 15, 23 to 37 give 30, 38 to 52
  give 45 and 53 to 59 give 60; exactly when the rounded value is 60 the minutes become 0
  and the hours go up by one, and the hours stay as they are otherwise.
\<close>

theorem roundTime_quarter_hour:
  assumes "0 \<le> minutes" and "minutes \<le> 59"
  shows "roundTime hours minutes =
           (if (minutes + 7) div 15 * 15 = 60 then (hours + 1, 0)
            else (hours, (minutes + 7) div 15 * 15))
         \<and> (minutes + 7) div 15 * 15 =
           (if minutes \<le> 7 then 0 else if minutes \<le> 22 then 15
            else if minutes \<le> 37 then 30 else if minutes \<le> 52 then 45 else 60)
         \<and> roundTime hours minutes =
           (if minutes \<le> 7 then (hours, 0) else if minutes \<le> 22 then (hours, 15)
            else if minutes \<le> 37 then (hours, 30) else if minutes \<le> 52 then (hours, 45)
            else (hours + 1, 0))"
proof -
  have "c_div (minutes + 7) 15 = (minutes + 7) div 15"
    using assms by (intro c_div_nonneg) simp_all
  then have r: "roundTime hours minutes =
           (if (minutes + 7) div 15 * 15 = 60 then (hours + 1, 0)
            else (hours, (minutes + 7) div 15 * 15))"
    by (simp add: roundTime_def Let_def)
  note t = quarter_table [OF assms]
  have "roundTime hours minutes =
           (if minutes \<le> 7 then (hours, 0) else if minutes \<le> 22 then (hours, 15)
            else if minutes \<le> 37 then (hours, 30) else if minutes \<le> 52 then (hours, 45)
            else (hours + 1, 0))"
    unfolding r t by simp
  with r t show ?thesis by (intro conjI)
qed

text \<open>The rounding at the boundaries of the table, 53 minutes carrying into the hour.\<close>

theorem roundTime_quarter_hour_witness:
  "(0::int) \<le> 53 \<and> (53::int) \<le> 59 \<and> roundTime 23 53 = (24, 0) \<and> roundTime 8 7 = (8, 0)
   \<and> roundTime 8 8 = (8, 15) \<and> roundTime 8 22 = (8, 15) \<and> roundTime 8 23 = (8, 30)
   \<and> roundTime 8 37 = (8, 30) \<and> roundTime 8 38 = (8, 45) \<and> roundTime 8 52 = (8, 45)
   \<and> roundTime 8 0 = (8, 0) \<and> roundTime 8 59 = (9, 0)"
  using roundTime_quarter_hour [of 53 23] roundTime_quarter_hour [of 7 8]
    roundTime_quarter_hour [of 8 8] roundTime_quarter_hour [of 22 8]
    roundTime_quarter_hour [of 23 8] roundTime_quarter_hour [of 37 8]
    roundTime_quarter_hour [of 38 8] roundTime_quarter_hour [of 52 8]
    roundTime_quarter_hour [of 0 8] roundTime_quarter_hour [of 59 8]
  by simp

subsection \<open>Conversion to 24-hour time\<close>

lemma validTime_cases:
  assumes "validTime h m c"
  obtains "c = CHR ''a''" "1 \<le> h" "h \<le> 12" "0 \<le> m" "m \<le> 59"
        | "c = CHR ''p''" "1 \<le> h" "h \<le> 12" "0 \<le> m" "m \<le> 59"
  using assms by (auto simp: validTime_def)

lemma toMilitaryTime_range:
  "validTime h m c \<Longrightarrow> 1 \<le> toMilitaryTime h c \<and> toMilitaryTime h c \<le> 24"
  by (erule validTime_cases) (simp_all add: toMilitaryTime_def)

lemma linearTime_range:
  "validTime h m c \<Longrightarrow> 60 \<le> linearTime h m c \<and> linearTime h m c \<le> 1499"
  by (erule validTime_cases) (simp_all add: linearTime_def toMilitaryTime_def)

lemma linearTime_spec:
  "validTime h m c \<Longrightarrow>
   linearTime h m c = toLinear_spec h m c + (if h = 12 \<and> c = CHR ''a'' then 1440 else 0)"
  by (erule validTime_cases) (simp_all add: linearTime_def toMilitaryTime_def toLinear_spec_def)

lemma toLinear_spec_range:
  "validTime h m c \<Longrightarrow> 0 \<le> toLinear_spec h m c \<and> toLinear_spec h m c \<le> 1439"
  by (erule validTime_cases) (simp_all add: toLinear_spec_def)

lemma linearTime_mod:
  assumes "validTime h m c"
  shows "linearTime h m c mod 1440 = toLinear_spec h m c"
proof -
  have r: "0 \<le> toLinear_spec h m c" "toLinear_spec h m c < 1440"
    using toLinear_spec_range [OF assms] by simp_all
  then have t: "toLinear_spec h m c mod 1440 = toLinear_spec h m c"
    by simp
  show ?thesis
  proof (cases "h = 12 \<and> c = CHR ''a''")
    case True
    then have "linearTime h m c = toLinear_spec h m c + 1440"
      using linearTime_spec [OF assms] by simp
    then have "linearTime h m c mod 1440 = toLinear_spec h m c mod 1440"
      by (simp only: mod_add_self2)
    with t show ?thesis by simp
  next
    case False
    then have "linearTime h m c = toLinear_spec h m c"
      using linearTime_spec [OF assms] by auto
    with t show ?thesis by simp
  qed
qed

text \<open>
  Claim C3, as the program has it. For every valid clock time (hour in \<open>[1, 12]\<close>, minute in
  \<open>[0, 59]\<close>, meridiem \<open>a\<close> or \<open>p\<close>) \<^verbatim>\<open>toMilitaryTime\<close> yields an hour in \<open>[1, 24]\<close>:
  12 AM becomes hour 24 ("so 12am = 24:00/00:00", as the source says), not hour 0. The
  linear value \<open>hour * 60 + minute\<close> therefore lies in \<open>[60, 1499]\<close>: 12:MM AM maps to
  \<open>1440 + MM\<close>, 12:MM PM to \<open>720 + MM\<close>, any other hour to \<open>hour * 60 + minute\<close>, plus 720
  in the afternoon. Modulo 1440 the value is the linear time of the specification, which lies
  in \<open>[0, 1439]\<close>.
\<close>

theorem toMilitaryTime_linear:
  assumes "validTime hour minute meridiem"
  shows "1 \<le> toMilitaryTime hour meridiem \<and> toMilitaryTime hour meridiem \<le> 24
         \<and> 60 \<le> linearTime hour minute meridiem \<and> linearTime hour minute meridiem \<le> 1499
         \<and> linearTime hour minute meridiem =
             (if hour = 12 then (if meridiem = CHR ''a'' then 1440 + minute else 720 + minute)
              else hour * 60 + minute + (if meridiem = CHR ''p'' then 720 else 0))
         \<and> linearTime hour minute meridiem mod 1440 = toLinear_spec hour minute meridiem
         \<and> 0 \<le> toLinear_spec hour minute meridiem \<and> toLinear_spec hour minute meridiem \<le> 1439"
proof -
  have "linearTime hour minute meridiem =
             (if hour = 12 then (if meridiem = CHR ''a'' then 1440 + minute else 720 + minute)
              else hour * 60 + minute + (if meridiem = CHR ''p'' then 720 else 0))"
    using assms by (elim validTime_cases) (simp_all add: linearTime_def toMilitaryTime_def)
  then show ?thesis
    using toMilitaryTime_range [OF assms] linearTime_range [OF assms]
      linearTime_mod [OF assms] toLinear_spec_range [OF assms]
    by (intro conjI) simp_all
qed

text \<open>Half past midnight: hour 24, linear value 1470, which is 30 modulo 1440.\<close>

theorem toMilitaryTime_linear_witness:
  "validTime 12 30 CHR ''a'' \<and> toMilitaryTime 12 CHR ''a'' = 24
   \<and> linearTime 12 30 CHR ''a'' = 1470 \<and> toLinear_spec 12 30 CHR ''a'' = 30"
  using toMilitaryTime_linear [of 12 30 "CHR ''a''"]
  by (simp add: validTime_def toMilitaryTime_def linearTime_def toLinear_spec_def)

text \<open>
  Midnight itself, 12:00 AM, is a valid time whose linear value is 1440: it is neither 0 nor
  within \<open>[0, 1439]\<close>.
\<close>

theorem midnight_hour_not_zero:
  "validTime 12 0 CHR ''a'' \<and> linearTime 12 0 CHR ''a'' = 1440
   \<and> \<not> linearTime 12 0 CHR ''a'' \<le> 1439 \<and> linearTime 12 0 CHR ''a'' \<noteq> 0"
  by (simp add: validTime_def toMilitaryTime_def linearTime_def)

lemma toMilitaryTime_inj:
  assumes "validTime h m c" "validTime h' m' c'" "toMilitaryTime h c = toMilitaryTime h' c'"
  shows "h = h' \<and> c = c'"
proof -
  have b: "1 \<le> h" "h \<le> 12" "1 \<le> h'" "h' \<le> 12"
    "c = CHR ''a'' \<or> c = CHR ''p''" "c' = CHR ''a'' \<or> c' = CHR ''p''"
    using assms(1,2) by (auto simp: validTime_def)
  show ?thesis
    using b assms(3) by (auto simp: toMilitaryTime_def split: if_splits)
qed

lemma sixty_unique:
  assumes "a * 60 + m = b * 60 + (n::int)" "0 \<le> m" "m \<le> 59" "0 \<le> n" "n \<le> 59"
  shows "a = b \<and> m = n"
proof -
  have "(a * 60 + m) div 60 = a" "(b * 60 + n) div 60 = b"
    using assms(2-5) by simp_all
  with assms(1) have "a = b" by simp
  with assms(1) show ?thesis by simp
qed

lemma linearTime_inj:
  assumes "validTime h m c" "validTime h' m' c'" "linearTime h m c = linearTime h' m' c'"
  shows "h = h' \<and> m = m' \<and> c = c'"
proof -
  have b: "0 \<le> m" "m \<le> 59" "0 \<le> m'" "m' \<le> 59"
    using assms(1,2) by (simp_all add: validTime_def)
  from sixty_unique [OF assms(3) [unfolded linearTime_def] b]
  have "toMilitaryTime h c = toMilitaryTime h' c'" "m = m'" by simp_all
  with toMilitaryTime_inj [OF assms(1,2)] show ?thesis by simp
qed

lemma mod_window:
  assumes "(x::int) mod 1440 = y mod 1440" "60 \<le> x" "x \<le> 1499" "60 \<le> y" "y \<le> 1499"
  shows "x = y"
proof -
  have "(x - 60) mod 1440 = (y - 60) mod 1440"
    using assms(1) by (metis mod_diff_cong)
  moreover have "(x - 60) mod 1440 = x - 60" "(y - 60) mod 1440 = y - 60"
    using assms(2-5) by simp_all
  ultimately show ?thesis by simp
qed

text \<open>
  Claim C9. The conversion of valid clock times to linear time is injective: two valid clock
  times have the same linear value only if they agree in hour, minute and meridiem. The same
  holds for the values taken modulo 1440, so the 1440 valid clock times fill the 1440 minutes
  of the day without collision.
\<close>

theorem linearTime_injective:
  assumes "validTime hour minute meridiem" and "validTime hour' minute' meridiem'"
  shows "(linearTime hour minute meridiem = linearTime hour' minute' meridiem'
            \<longleftrightarrow> hour = hour' \<and> minute = minute' \<and> meridiem = meridiem')
         \<and> (linearTime hour minute meridiem mod 1440 = linearTime hour' minute' meridiem' mod 1440
            \<longleftrightarrow> hour = hour' \<and> minute = minute' \<and> meridiem = meridiem')"
proof -
  have 1: "linearTime hour minute meridiem = linearTime hour' minute' meridiem'
            \<longleftrightarrow> hour = hour' \<and> minute = minute' \<and> meridiem = meridiem'"
    using linearTime_inj [OF assms] by blast
  have "linearTime hour minute meridiem = linearTime hour' minute' meridiem'"
    if "linearTime hour minute meridiem mod 1440 = linearTime hour' minute' meridiem' mod 1440"
    using mod_window [OF that] linearTime_range [OF assms(1)] linearTime_range [OF assms(2)]
    by simp
  then have 2: "linearTime hour minute meridiem mod 1440 = linearTime hour' minute' meridiem' mod 1440
            \<longleftrightarrow> hour = hour' \<and> minute = minute' \<and> meridiem = meridiem'"
    using 1 by blast
  show ?thesis using 1 2 by (intro conjI)
qed

text \<open>Midnight and noon, which differ in the meridiem only, are kept apart.\<close>

theorem linearTime_injective_witness:
  "validTime 12 0 CHR ''a'' \<and> validTime 12 0 CHR ''p''
   \<and> linearTime 12 0 CHR ''a'' \<noteq> linearTime 12 0 CHR ''p''
   \<and> linearTime 12 0 CHR ''a'' mod 1440 \<noteq> linearTime 12 0 CHR ''p'' mod 1440"
  using linearTime_injective [of 12 0 "CHR ''a''" 12 0 "CHR ''p''"]
  by (simp add: validTime_def)


subsection \<open>The difference of two times\<close>

lemma timeDifference_linear:
  assumes "validTime sh sm sc" and "validTime eh em ec"
    and "timeDifference sh sm sc eh em ec = (hh, mm)"
  shows "0 \<le> hh \<and> hh \<le> 23 \<and> 0 \<le> mm \<and> mm \<le> 59
         \<and> hh * 60 + mm =
            (if linearTime eh em ec - linearTime sh sm sc \<ge> 0
             then linearTime eh em ec - linearTime sh sm sc
             else linearTime eh em ec - linearTime sh sm sc + 1440)"
proof -
  define a where "a = toMilitaryTime sh sc"
  define b where "b = toMilitaryTime eh ec"
  define d where "d = linearTime eh em ec - linearTime sh sm sc"
  have m: "0 \<le> sm" "sm \<le> 59" "0 \<le> em" "em \<le> 59"
    using assms(1,2) by (simp_all add: validTime_def)
  have r: "1 \<le> a" "a \<le> 24" "1 \<le> b" "b \<le> 24"
    using toMilitaryTime_range [OF assms(1)] toMilitaryTime_range [OF assms(2)]
    by (simp_all add: a_def b_def)
  have d: "d = 60 * b - 60 * a + em - sm"
    by (simp add: d_def linearTime_def a_def b_def)
  have td: "(hh, mm) =
     (let hourDifference = b - a; minuteDifference = em - sm;
          (hourDifference, minuteDifference) =
             (if minuteDifference < 0 then (hourDifference - 1, minuteDifference + 60)
              else (hourDifference, minuteDifference));
          hourDifference = (if hourDifference < 0 then hourDifference + 24 else hourDifference)
      in (hourDifference, minuteDifference))"
    using assms(3) by (simp add: timeDifference_def a_def b_def)
  consider (plain) "sm \<le> em" "a \<le> b" | (day) "sm \<le> em" "b < a"
    | (borrow) "em < sm" "a < b" | (both) "em < sm" "b \<le> a"
    by linarith
  then have "0 \<le> hh \<and> hh \<le> 23 \<and> 0 \<le> mm \<and> mm \<le> 59
         \<and> hh * 60 + mm = (if d \<ge> 0 then d else d + 1440)"
  proof cases
    case plain
    with td have v: "hh = b - a" "mm = em - sm" by (simp_all add: Let_def)
    have "0 \<le> d" using plain d by linarith
    then show ?thesis using v plain r m d by simp
  next
    case day
    with td have v: "hh = b - a + 24" "mm = em - sm" by (simp_all add: Let_def)
    have "d < 0" using day d m by linarith
    then show ?thesis using v day r m d by simp
  next
    case borrow
    with td have v: "hh = b - a - 1" "mm = em - sm + 60" by (simp_all add: Let_def)
    have "0 \<le> d" using borrow d m by linarith
    then show ?thesis using v borrow r m d by simp
  next
    case both
    with td have v: "hh = b - a - 1 + 24" "mm = em - sm + 60" by (simp_all add: Let_def)
    have "d < 0" using both d m by linarith
    then show ?thesis using v both r m d by simp
  qed
  then show ?thesis by (simp only: d_def)
qed

lemma wrap_mod:
  fixes d x :: int
  assumes "x = (if d \<ge> 0 then d else d + 1440)" "0 \<le> x" "x < 1440"
  shows "x = d mod 1440"
proof (cases "d \<ge> 0")
  case True
  with assms have "x = d" "0 \<le> d" "d < 1440" by simp_all
  then show ?thesis by (simp only: mod_pos_pos_trivial)
next
  case False
  with assms have x: "x = d + 1440" by simp
  have "d mod 1440 = (d + 1440) mod 1440" by (simp only: mod_add_self2)
  also have "\<dots> = d + 1440"
    using assms(2,3) x by (intro mod_pos_pos_trivial) simp_all
  finally show ?thesis using x by simp
qed

lemma mod_wrap:
  fixes d :: int
  assumes "- 1440 < d" "d < 1440"
  shows "d mod 1440 = (if d \<ge> 0 then d else d + 1440)"
proof -
  define x where "x = (if d \<ge> 0 then d else d + 1440)"
  have "0 \<le> x" "x < 1440" using assms by (simp_all add: x_def)
  from wrap_mod [OF x_def this] show ?thesis by (simp only: x_def)
qed

text \<open>
  Claim C1. For every pair of valid start and end times, the difference the program
  computes is \<open>(end - start) mod 1440\<close> minutes, split into hours and minutes: it is
  \<open>end - start\<close> when that is not negative and \<open>end - start + 1440\<close> otherwise (the end lies
  in the next day); the hours are in \<open>[0, 23]\<close> and the minutes in \<open>[0, 59]\<close>. This holds for
  the linear times of the specification (\<open>s\<close>, \<open>e\<close>) and for the linear values of the
  program's own 24-hour times (\<open>s'\<close>, \<open>e'\<close>).
\<close>

theorem timeDifference_elapsed:
  assumes "validTime startHour startMinute startMeridiem"
    and "validTime endHour endMinute endMeridiem"
    and "timeDifference startHour startMinute startMeridiem endHour endMinute endMeridiem
          = (hours, minutes)"
  shows "let s = toLinear_spec startHour startMinute startMeridiem;
             e = toLinear_spec endHour endMinute endMeridiem;
             s' = linearTime startHour startMinute startMeridiem;
             e' = linearTime endHour endMinute endMeridiem
         in hours * 60 + minutes = (e - s) mod 1440
            \<and> hours * 60 + minutes = (if e - s \<ge> 0 then e - s else e - s + 1440)
            \<and> hours = (e - s) mod 1440 div 60 \<and> minutes = (e - s) mod 1440 mod 60
            \<and> 0 \<le> hours \<and> hours \<le> 23 \<and> 0 \<le> minutes \<and> minutes \<le> 59
            \<and> hours * 60 + minutes = (e' - s') mod 1440
            \<and> hours * 60 + minutes = (if e' - s' \<ge> 0 then e' - s' else e' - s' + 1440)"
proof -
  define s where "s = toLinear_spec startHour startMinute startMeridiem"
  define e where "e = toLinear_spec endHour endMinute endMeridiem"
  define s' where "s' = linearTime startHour startMinute startMeridiem"
  define e' where "e' = linearTime endHour endMinute endMeridiem"
  note l = timeDifference_linear [OF assms(1-3)]
  from l have b: "0 \<le> hours" "hours \<le> 23" "0 \<le> minutes" "minutes \<le> 59" by simp_all
  then have x: "0 \<le> hours * 60 + minutes" "hours * 60 + minutes < 1440" by simp_all
  from l have c: "hours * 60 + minutes = (if e' - s' \<ge> 0 then e' - s' else e' - s' + 1440)"
    by (simp add: s'_def e'_def)
  have c': "hours * 60 + minutes = (e' - s') mod 1440"
    using wrap_mod [OF c x] .
  have "(e' - s') mod 1440 = (e' mod 1440 - s' mod 1440) mod 1440"
    by (simp only: mod_diff_eq)
  then have d: "(e' - s') mod 1440 = (e - s) mod 1440"
    by (simp only: s_def e_def s'_def e'_def linearTime_mod [OF assms(1)]
        linearTime_mod [OF assms(2)])
  have "- 1440 < e - s" "e - s < 1440"
    using toLinear_spec_range [OF assms(1)] toLinear_spec_range [OF assms(2)]
    by (simp_all add: s_def e_def)
  note w = mod_wrap [OF this]
  have t: "hours * 60 + minutes = (e - s) mod 1440" using c' d by simp
  have h: "hours = (e - s) mod 1440 div 60" and mi: "minutes = (e - s) mod 1440 mod 60"
    using b unfolding t [symmetric] by simp_all
  have t': "hours * 60 + minutes = (if e - s \<ge> 0 then e - s else e - s + 1440)"
    using t w by (simp only:)
  have "hours * 60 + minutes = (e - s) mod 1440
            \<and> hours * 60 + minutes = (if e - s \<ge> 0 then e - s else e - s + 1440)
            \<and> hours = (e - s) mod 1440 div 60 \<and> minutes = (e - s) mod 1440 mod 60
            \<and> 0 \<le> hours \<and> hours \<le> 23 \<and> 0 \<le> minutes \<and> minutes \<le> 59
            \<and> hours * 60 + minutes = (e' - s') mod 1440
            \<and> hours * 60 + minutes = (if e' - s' \<ge> 0 then e' - s' else e' - s' + 1440)"
    by (intro conjI) (rule t, rule t', rule h, rule mi, rule b, rule b, rule b, rule b,
        rule c', rule c)
  then show ?thesis
    unfolding s_def e_def s'_def e'_def Let_def .
qed

text \<open>From 11:59 PM to 12:01 AM the difference is 0 hours and 2 minutes.\<close>

theorem timeDifference_elapsed_witness:
  "validTime 11 59 CHR ''p'' \<and> validTime 12 1 CHR ''a''
   \<and> timeDifference 11 59 CHR ''p'' 12 1 CHR ''a'' = (0, 2)
   \<and> toLinear_spec 11 59 CHR ''p'' = 1439 \<and> toLinear_spec 12 1 CHR ''a'' = 1
   \<and> (0::int) * 60 + 2 = (toLinear_spec 12 1 CHR ''a'' - toLinear_spec 11 59 CHR ''p'') mod 1440"
proof -
  have v1: "validTime 11 59 CHR ''p''" and v2: "validTime 12 1 CHR ''a''"
    by (simp_all add: validTime_def)
  have td: "timeDifference 11 59 CHR ''p'' 12 1 CHR ''a'' = (0, 2)"
    by (simp add: timeDifference_def toMilitaryTime_def)
  have l: "toLinear_spec 11 59 CHR ''p'' = 1439" "toLinear_spec 12 1 CHR ''a'' = 1"
    by (simp_all add: toLinear_spec_def)
  from timeDifference_elapsed [OF v1 v2 td, unfolded Let_def]
  have "(0::int) * 60 + 2 = (toLinear_spec 12 1 CHR ''a'' - toLinear_spec 11 59 CHR ''p'') mod 1440"
    by (rule conjunct1)
  with v1 v2 td l show ?thesis by (intro conjI)
qed

subsection \<open>Reading and checking one time\<close>

lemma readTime_unfold:
  assumes "scanf_time hour0 minute0 meridiem0 (stdin w) = (hour, minute, scanned, rest)"
    and "meridiem = (if scanned = CHR ''A'' then CHR ''a''
                     else if scanned = CHR ''P'' then CHR ''p'' else scanned)"
  shows "readTime hour0 minute0 meridiem0 w =
     (if validTime hour minute meridiem then (0, hour, minute, meridiem, w\<lparr>stdin := rest\<rparr>)
      else (- 1, hour, minute, meridiem,
            w\<lparr>stdin := rest,
              stdout := stdout w
                @ (if hour \<le> 0 then [HourTooSmall hour] else [])
                @ (if hour \<ge> 13 then [HourTooBig hour] else [])
                @ (if minute \<le> - 1 then [MinuteTooSmall minute] else [])
                @ (if minute \<ge> 60 then [MinuteTooBig minute] else [])
                @ (if meridiem \<noteq> CHR ''a'' \<and> meridiem \<noteq> CHR ''p''
                   then [UnrecognizedMeridiem meridiem] else [])\<rparr>))"
  using assms by (simp add: readTime_def Let_def printf_s_def)

text \<open>
  Claim C6. \<^verbatim>\<open>readTime\<close> returns 0 or -1, and it returns -1 exactly when one of the
  constraints is violated: hour in \<open>[1, 12]\<close>, minute in \<open>[0, 59]\<close>, meridiem letter one of
  \<open>a\<close>, \<open>p\<close>, \<open>A\<close>, \<open>P\<close> (the upper-case letters are turned into lower case first). Every
  violated constraint is reported, in one pass and in this order: hour too small for an hour
  \<open>\<le> 0\<close> (hour 0 included), hour too big for an hour \<open>\<ge> 13\<close>, minute too small for a minute
  \<open>\<le> -1\<close>, minute too big for a minute \<open>\<ge> 60\<close>, unrecognised meridiem for a letter that is
  neither \<open>a\<close> nor \<open>p\<close>. Nothing is reported exactly when the time is valid.
\<close>

theorem readTime_reports:
  assumes "scanf_time hour0 minute0 meridiem0 (stdin w) = (hour, minute, scanned, rest)"
    and "meridiem = (if scanned = CHR ''A'' then CHR ''a''
                     else if scanned = CHR ''P'' then CHR ''p'' else scanned)"
    and "readTime hour0 minute0 meridiem0 w = (r, h, m, c, w')"
  shows "(h, m, c) = (hour, minute, meridiem) \<and> stdin w' = rest
         \<and> (r = 0 \<or> r = - 1)
         \<and> (r = - 1 \<longleftrightarrow>
              \<not> (1 \<le> hour \<and> hour \<le> 12 \<and> 0 \<le> minute \<and> minute \<le> 59
                 \<and> scanned \<in> {CHR ''a'', CHR ''p'', CHR ''A'', CHR ''P''}))
         \<and> stdout w' = stdout w
                @ (if hour \<le> 0 then [HourTooSmall hour] else [])
                @ (if hour \<ge> 13 then [HourTooBig hour] else [])
                @ (if minute \<le> - 1 then [MinuteTooSmall minute] else [])
                @ (if minute \<ge> 60 then [MinuteTooBig minute] else [])
                @ (if meridiem \<noteq> CHR ''a'' \<and> meridiem \<noteq> CHR ''p''
                   then [UnrecognizedMeridiem meridiem] else [])
         \<and> (r = 0 \<longleftrightarrow> stdout w' = stdout w)"
proof (cases "validTime hour minute meridiem")
  case True
  then have "readTime hour0 minute0 meridiem0 w = (0, hour, minute, meridiem, w\<lparr>stdin := rest\<rparr>)"
    by (simp add: readTime_unfold [OF assms(1,2)])
  with assms(3) have e: "r = 0" "h = hour" "m = minute" "c = meridiem" "w' = w\<lparr>stdin := rest\<rparr>"
    by simp_all
  from True have v: "1 \<le> hour" "hour \<le> 12" "0 \<le> minute" "minute \<le> 59"
    "meridiem = CHR ''a'' \<or> meridiem = CHR ''p''"
    by (simp_all add: validTime_def)
  from v(5) assms(2) have s: "scanned \<in> {CHR ''a'', CHR ''p'', CHR ''A'', CHR ''P''}"
    by (auto split: if_splits)
  show ?thesis
    using e v s by auto
next
  case False
  then have "readTime hour0 minute0 meridiem0 w =
      (- 1, hour, minute, meridiem,
            w\<lparr>stdin := rest,
              stdout := stdout w
                @ (if hour \<le> 0 then [HourTooSmall hour] else [])
                @ (if hour \<ge> 13 then [HourTooBig hour] else [])
                @ (if minute \<le> - 1 then [MinuteTooSmall minute] else [])
                @ (if minute \<ge> 60 then [MinuteTooBig minute] else [])
                @ (if meridiem \<noteq> CHR ''a'' \<and> meridiem \<noteq> CHR ''p''
                   then [UnrecognizedMeridiem meridiem] else [])\<rparr>)"
    by (simp add: readTime_unfold [OF assms(1,2)])
  with assms(3) have e: "r = - 1" "h = hour" "m = minute" "c = meridiem" "stdin w' = rest"
     "stdout w' = stdout w
                @ (if hour \<le> 0 then [HourTooSmall hour] else [])
                @ (if hour \<ge> 13 then [HourTooBig hour] else [])
                @ (if minute \<le> - 1 then [MinuteTooSmall minute] else [])
                @ (if minute \<ge> 60 then [MinuteTooBig minute] else [])
                @ (if meridiem \<noteq> CHR ''a'' \<and> meridiem \<noteq> CHR ''p''
                   then [UnrecognizedMeridiem meridiem] else [])"
    by auto
  have s: "scanned \<in> {CHR ''a'', CHR ''p'', CHR ''A'', CHR ''P''}
           \<longleftrightarrow> meridiem = CHR ''a'' \<or> meridiem = CHR ''p''"
    using assms(2) by auto
  from False have n: "\<not> (1 \<le> hour \<and> hour \<le> 12 \<and> 0 \<le> minute \<and> minute \<le> 59
                 \<and> scanned \<in> {CHR ''a'', CHR ''p'', CHR ''A'', CHR ''P''})"
    unfolding s by (auto simp: validTime_def)
  have ne: "stdout w' \<noteq> stdout w"
    using False unfolding e(6) by (auto simp: validTime_def)
  show ?thesis
    using e n ne by simp
qed


text \<open>
  The token \<^verbatim>\<open>13:75xm\<close> violates three constraints at once, and all three are reported.
\<close>

theorem readTime_reports_witness:
  "scanf_time 0 0 CHR 0x00 (stdin (initial_world ''13:75xm-2:00pm''))
     = (13, 75, CHR ''x'', ''m-2:00pm'')
   \<and> fst (readTime 0 0 CHR 0x00 (initial_world ''13:75xm-2:00pm'')) = - 1
   \<and> stdout (snd (snd (snd (snd (readTime 0 0 CHR 0x00 (initial_world ''13:75xm-2:00pm''))))))
     = [HourTooBig 13, MinuteTooBig 75, UnrecognizedMeridiem CHR ''x'']"
proof -
  let ?w = "initial_world ''13:75xm-2:00pm''"
  have sc: "scanf_time 0 0 CHR 0x00 (stdin ?w) = (13, 75, CHR ''x'', ''m-2:00pm'')"
    by (simp add: initial_world_def scanf_time_def scan_d_def isspace_def isdigit_def
        digits_value_def)
  obtain r h m c w' where rt: "readTime 0 0 CHR 0x00 ?w = (r, h, m, c, w')"
    by (cases "readTime 0 0 CHR 0x00 ?w") auto
  from readTime_reports [OF sc refl rt]
  have "r = - 1" and "stdout w' = [HourTooBig 13, MinuteTooBig 75, UnrecognizedMeridiem CHR ''x'']"
    by (simp_all add: initial_world_def)
  with sc rt show ?thesis by simp
qed

subsection \<open>One pass of the loop of \<^verbatim>\<open>readTimesForDay\<close>\<close>

lemma readTime_result:
  assumes "readTime hour0 minute0 meridiem0 w = (r, h, m, c, w')"
  shows "(r = 0 \<and> validTime h m c \<and> stdout w' = stdout w)
         \<or> (r = - 1 \<and> \<not> validTime h m c
             \<and> (\<exists>msgs. stdout w' = stdout w @ msgs
                  \<and> set msgs \<subseteq> {HourTooSmall h, HourTooBig h, MinuteTooSmall m, MinuteTooBig m,
                                  UnrecognizedMeridiem c}))"
proof -
  obtain hour minute scanned rest
    where sc: "scanf_time hour0 minute0 meridiem0 (stdin w) = (hour, minute, scanned, rest)"
    by (cases "scanf_time hour0 minute0 meridiem0 (stdin w)") auto
  show ?thesis
    using assms unfolding readTime_unfold [OF sc refl]
    by (auto split: if_splits)
qed


lemma clearBufferJunk_keeps:
  "stdout (snd (clearBufferJunk target w)) = stdout w
   \<and> frames (snd (clearBufferJunk target w)) = frames w
   \<and> indet (snd (clearBufferJunk target w)) = indet w"
  by (simp add: clearBufferJunk_dropWhile split: list.split)

text \<open>
  The four ways through the body: the start time is refused, the end time is refused, the two
  times are identical, or a pair is processed.
\<close>

lemma body_cases [consumes 1, case_names start_bad end_bad stop pair]:
  assumes "readTimesForDay_body th tm w = (p, th', tm', w')"
  obtains
    sh sm sc w1 where
      "readTime (startHour0 (indet w (frames w))) (startMinute0 (indet w (frames w)))
         (startMeridiem0 (indet w (frames w))) (w\<lparr>frames := Suc (frames w)\<rparr>)
        = (- 1, sh, sm, sc, w1)"
      "p = Returned (- 1)" "th' = th" "tm' = tm"
      "w' = snd (clearBufferJunk (of_char newline) (printf_s [StartTimeWrong] w1))"
  | sh sm sc w1 eh em ec w3 where
      "readTime (startHour0 (indet w (frames w))) (startMinute0 (indet w (frames w)))
         (startMeridiem0 (indet w (frames w))) (w\<lparr>frames := Suc (frames w)\<rparr>)
        = (0, sh, sm, sc, w1)"
      "readTime (endHour0 (indet w (frames w))) (endMinute0 (indet w (frames w)))
         (endMeridiem0 (indet w (frames w))) (snd (clearBufferJunk (of_char CHR ''-'') w1))
        = (- 1, eh, em, ec, w3)"
      "p = Returned (- 1)" "th' = th" "tm' = tm"
      "w' = snd (clearBufferJunk (of_char newline) (printf_s [EndTimeWrong] w3))"
  | sh sm sc w1 w3 where
      "readTime (startHour0 (indet w (frames w))) (startMinute0 (indet w (frames w)))
         (startMeridiem0 (indet w (frames w))) (w\<lparr>frames := Suc (frames w)\<rparr>)
        = (0, sh, sm, sc, w1)"
      "readTime (endHour0 (indet w (frames w))) (endMinute0 (indet w (frames w)))
         (endMeridiem0 (indet w (frames w))) (snd (clearBufferJunk (of_char CHR ''-'') w1))
        = (0, sh, sm, sc, w3)"
      "p = Returned 0" "th' = th" "tm' = tm"
      "w' = printf_s [BlankLine, EchoStart sh sm sc, EchoEnd sh sm sc] w3"
  | sh sm sc w1 eh em ec w3 hh mm e where
      "readTime (startHour0 (indet w (frames w))) (startMinute0 (indet w (frames w)))
         (startMeridiem0 (indet w (frames w))) (w\<lparr>frames := Suc (frames w)\<rparr>)
        = (0, sh, sm, sc, w1)"
      "readTime (endHour0 (indet w (frames w))) (endMinute0 (indet w (frames w)))
         (endMeridiem0 (indet w (frames w))) (snd (clearBufferJunk (of_char CHR ''-'') w1))
        = (0, eh, em, ec, w3)"
      "(sh, sm, sc) \<noteq> (eh, em, ec)"
      "timeDifference sh sm sc eh em ec = (hh, mm)"
      "addToTotal th tm hh mm = (th', tm')"
      "clearBufferJunk (of_char CHR '','')
         (printf_s [ActualTime hh mm]
            (printf_s [BlankLine, EchoStart sh sm sc, EchoEnd eh em ec] w3)) = (e, w')"
      "p = EndFound e"
proof -
  let ?l = "indet w (frames w)"
  obtain r1 sh sm sc w1 where rt1:
    "readTime (startHour0 ?l) (startMinute0 ?l) (startMeridiem0 ?l) (w\<lparr>frames := Suc (frames w)\<rparr>)
      = (r1, sh, sm, sc, w1)"
    by (metis prod_cases5)
  obtain r2 eh em ec w3 where rt2:
    "readTime (endHour0 ?l) (endMinute0 ?l) (endMeridiem0 ?l)
       (snd (clearBufferJunk (of_char CHR ''-'') w1)) = (r2, eh, em, ec, w3)"
    by (metis prod_cases5)
  obtain hh mm where td: "timeDifference sh sm sc eh em ec = (hh, mm)"
    by (cases "timeDifference sh sm sc eh em ec") auto
  obtain e w6 where cb: "clearBufferJunk (of_char CHR '','')
         (printf_s [ActualTime hh mm]
            (printf_s [BlankLine, EchoStart sh sm sc, EchoEnd eh em ec] w3)) = (e, w6)"
    by (cases "clearBufferJunk (of_char CHR '','')
         (printf_s [ActualTime hh mm]
            (printf_s [BlankLine, EchoStart sh sm sc, EchoEnd eh em ec] w3))") auto
  obtain a b where at: "addToTotal th tm hh mm = (a, b)"
    by (cases "addToTotal th tm hh mm") auto
  have r1: "r1 = 0 \<or> r1 = - 1" using readTime_result [OF rt1] by auto
  have r2: "r2 = 0 \<or> r2 = - 1" using readTime_result [OF rt2] by auto
  show ?thesis
  proof (cases "r1 = - 1")
    case True
    then show ?thesis
      using assms rt1 by (intro that(1) [of sh sm sc w1]) (simp_all add: readTimesForDay_body_def)
  next
    case s: False
    with r1 have r10: "r1 = 0" by simp
    show ?thesis
    proof (cases "r2 = - 1")
      case True
      then show ?thesis
        using assms rt1 rt2 r10
        by (intro that(2) [of sh sm sc w1 eh em ec w3])
           (simp_all add: readTimesForDay_body_def Let_def)
    next
      case e: False
      with r2 have r20: "r2 = 0" by simp
      show ?thesis
      proof (cases "sh = eh \<and> sm = em \<and> sc = ec")
        case True
        then show ?thesis
          using assms rt1 rt2 r10 r20
          by (intro that(3) [of sh sm sc w1 w3])
             (simp_all add: readTimesForDay_body_def Let_def)
      next
        case False
        then show ?thesis
          using assms rt1 rt2 r10 r20 td cb at
          by (intro that(4) [of sh sm sc w1 eh em ec w3 hh mm e])
             (auto simp add: readTimesForDay_body_def Let_def)
      qed
    qed
  qed
qed

subsection \<open>The loop of \<^verbatim>\<open>readTimesForDay\<close> and the totals of the day\<close>

lemma loop_unfold:
  assumes "readTimesForDay_body th tm w = (p, th', tm', w')"
  shows "readTimesForDay_loop th tm w =
           (case p of
              Returned r \<Rightarrow> (r, th', tm', w')
            | EndFound e \<Rightarrow> if e \<noteq> 1 \<and> e \<noteq> - 1 then readTimesForDay_loop th' tm' w'
                            else (1, th', tm', w'))"
  by (subst readTimesForDay_loop.simps) (simp add: assms split: pass.split)

lemma loop_induct [case_names pass]:
  assumes "\<And>th tm w.
             (\<And>e th' tm' w'. readTimesForDay_body th tm w = (EndFound e, th', tm', w')
                 \<Longrightarrow> e \<noteq> 1 \<Longrightarrow> e \<noteq> - 1 \<Longrightarrow> P th' tm' w') \<Longrightarrow> P th tm w"
  shows "P th tm w"
proof (induction th tm w rule: readTimesForDay_loop.induct)
  case (1 totalHours totalMinutes w)
  show ?case
  proof (rule assms)
    fix e th' tm' w'
    assume "readTimesForDay_body totalHours totalMinutes w = (EndFound e, th', tm', w')"
      "e \<noteq> 1" "e \<noteq> - 1"
    then show "P th' tm' w'"
      by (intro "1.IH" [of "EndFound e" "(th', tm', w')" e th' "(tm', w')" tm' w']) simp_all
  qed
qed

lemma worked_errors:
  "set msgs \<subseteq> {HourTooSmall h, HourTooBig h, MinuteTooSmall m, MinuteTooBig m,
                 UnrecognizedMeridiem c} \<Longrightarrow> sum_list (map worked msgs) = 0"
  by (induction msgs) auto

lemma addToTotal_sum:
  assumes "addToTotal th tm hh mm = (th', tm')" "0 \<le> tm" "tm \<le> 59" "0 \<le> mm" "mm \<le> 59"
  shows "0 \<le> tm' \<and> tm' \<le> 59 \<and> th' * 60 + tm' = th * 60 + tm + (hh * 60 + mm)
         \<and> (0 \<le> hh \<longrightarrow> th \<le> th')"
  using assms by (auto simp: addToTotal_def Let_def split: if_splits)

lemma body_totals:
  assumes "readTimesForDay_body th tm w = (p, th', tm', w')" "0 \<le> tm" "tm \<le> 59"
  shows "0 \<le> tm' \<and> tm' \<le> 59 \<and> th \<le> th'
         \<and> (\<exists>new. stdout w' = stdout w @ new
               \<and> th' * 60 + tm' = th * 60 + tm + sum_list (map worked new))"
  using assms(1)
proof (cases rule: body_cases)
  case (start_bad sh sm sc w1)
  from readTime_result [OF start_bad(1)] obtain msgs where
    "stdout w1 = stdout w @ msgs" "sum_list (map worked msgs) = 0"
    using worked_errors by auto
  then have "stdout w' = stdout w @ (msgs @ [StartTimeWrong])"
    "sum_list (map worked (msgs @ [StartTimeWrong])) = 0"
    by (simp_all add: start_bad(5) clearBufferJunk_keeps printf_s_def)
  then show ?thesis using start_bad(3,4) assms(2,3) by (metis add_0_right order_refl)
next
  case (end_bad sh sm sc w1 eh em ec w3)
  from readTime_result [OF end_bad(1)] have 1: "stdout w1 = stdout w" by simp
  from readTime_result [OF end_bad(2)] obtain msgs where
    "stdout w3 = stdout w1 @ msgs" "sum_list (map worked msgs) = 0"
    using worked_errors by (auto simp: clearBufferJunk_keeps)
  then have "stdout w' = stdout w @ (msgs @ [EndTimeWrong])"
    "sum_list (map worked (msgs @ [EndTimeWrong])) = 0"
    by (simp_all add: end_bad(6) 1 clearBufferJunk_keeps printf_s_def)
  then show ?thesis using end_bad(4,5) assms(2,3) by (metis add_0_right order_refl)
next
  case (stop sh sm sc w1 w3)
  from readTime_result [OF stop(1)] have 1: "stdout w1 = stdout w" by simp
  from readTime_result [OF stop(2)] have 3: "stdout w3 = stdout w1"
    by (simp add: clearBufferJunk_keeps)
  have "stdout w' = stdout w @ [BlankLine, EchoStart sh sm sc, EchoEnd sh sm sc]"
    "sum_list (map worked [BlankLine, EchoStart sh sm sc, EchoEnd sh sm sc]) = 0"
    by (simp_all add: stop(6) 1 3 printf_s_def)
  then show ?thesis using stop(4,5) assms(2,3) by (metis add_0_right order_refl)
next
  case (pair sh sm sc w1 eh em ec w3 hh mm e)
  from readTime_result [OF pair(1)] have 1: "stdout w1 = stdout w" "validTime sh sm sc" by simp_all
  from readTime_result [OF pair(2)] have 3: "stdout w3 = stdout w1" "validTime eh em ec"
    by (simp_all add: clearBufferJunk_keeps)
  from timeDifference_linear [OF 1(2) 3(2) pair(4)]
  have d: "0 \<le> hh" "0 \<le> mm" "mm \<le> 59" by simp_all
  from pair(6) have "w' = snd (clearBufferJunk (of_char CHR '','')
         (printf_s [ActualTime hh mm]
            (printf_s [BlankLine, EchoStart sh sm sc, EchoEnd eh em ec] w3)))" by simp
  then have o: "stdout w' = stdout w @ [BlankLine, EchoStart sh sm sc, EchoEnd eh em ec, ActualTime hh mm]"
    by (simp add: clearBufferJunk_keeps printf_s_def 1 3)
  have s: "sum_list (map worked [BlankLine, EchoStart sh sm sc, EchoEnd eh em ec, ActualTime hh mm])
            = hh * 60 + mm" by simp
  from addToTotal_sum [OF pair(5) assms(2,3) d(2,3)] d(1)
  have "0 \<le> tm'" "tm' \<le> 59" "th \<le> th'" "th' * 60 + tm' = th * 60 + tm + (hh * 60 + mm)"
    by simp_all
  then show ?thesis using o s by metis
qed

lemma loop_totals:
  "0 \<le> tm \<Longrightarrow> tm \<le> 59 \<Longrightarrow> readTimesForDay_loop th tm w = (r, th', tm', w') \<Longrightarrow>
   0 \<le> tm' \<and> tm' \<le> 59 \<and> th \<le> th'
         \<and> (\<exists>new. stdout w' = stdout w @ new
               \<and> th' * 60 + tm' = th * 60 + tm + sum_list (map worked new))"
proof (induction th tm w rule: loop_induct)
  case (pass th tm w)
  obtain p th1 tm1 w1 where b: "readTimesForDay_body th tm w = (p, th1, tm1, w1)"
    by (metis prod_cases4)
  note t = body_totals [OF b pass.prems(1,2)]
  then obtain new1 where n1: "stdout w1 = stdout w @ new1"
     "th1 * 60 + tm1 = th * 60 + tm + sum_list (map worked new1)" by blast
  show ?case
  proof (cases "\<exists>e. p = EndFound e \<and> e \<noteq> 1 \<and> e \<noteq> - 1")
    case True
    then obtain e where e: "p = EndFound e" "e \<noteq> 1" "e \<noteq> - 1" by blast
    with loop_unfold [OF b] pass.prems(3)
    have l: "readTimesForDay_loop th1 tm1 w1 = (r, th', tm', w')" by simp
    from t have "0 \<le> tm1" "tm1 \<le> 59" by simp_all
    from pass.IH [OF b [unfolded e(1)] e(2,3) this l]
    obtain new2 where n2: "0 \<le> tm'" "tm' \<le> 59" "th1 \<le> th'" "stdout w' = stdout w1 @ new2"
       "th' * 60 + tm' = th1 * 60 + tm1 + sum_list (map worked new2)" by blast
    have "stdout w' = stdout w @ (new1 @ new2)"
      "th' * 60 + tm' = th * 60 + tm + sum_list (map worked (new1 @ new2))"
      using n1 n2 by simp_all
    moreover have "th \<le> th'" using t n2(3) by simp
    ultimately show ?thesis using n2(1,2) by blast
  next
    case False
    with loop_unfold [OF b] pass.prems(3)
    have "th' = th1" "tm' = tm1" "w' = w1"
      by (cases p; simp split: if_splits)+
    with t show ?thesis by simp
  qed
qed


text \<open>
  Claim C7. Accumulation keeps the totals of the day normal. A pass that processes a pair
  from totals with minutes in \<open>[0, 59]\<close> and hours \<open>\<ge> 0\<close> leaves totals with minutes in
  \<open>[0, 59]\<close> and hours \<open>\<ge> 0\<close>, grown by exactly the actual time it printed for the pair.
  Hence a day that starts from 0 hours and 0 minutes ends, whatever its outcome, with
  minutes in \<open>[0, 59]\<close>, hours \<open>\<ge> 0\<close>, and a total equal to the sum of the actual times
  printed for its pairs.
\<close>

theorem accumulation_normalized:
  "(0 \<le> tm \<longrightarrow> tm \<le> 59 \<longrightarrow> 0 \<le> th
      \<longrightarrow> readTimesForDay_body th tm w = (EndFound e, th', tm', w')
      \<longrightarrow> 0 \<le> tm' \<and> tm' \<le> 59 \<and> 0 \<le> th'
         \<and> th' * 60 + tm'
             = th * 60 + tm + sum_list (map worked (drop (length (stdout w)) (stdout w'))))
   \<and> (readTimesForDay 0 0 v = (r, totalHours, totalMinutes, v')
      \<longrightarrow> 0 \<le> totalMinutes \<and> totalMinutes \<le> 59 \<and> 0 \<le> totalHours
         \<and> totalHours * 60 + totalMinutes
             = sum_list (map worked (drop (length (stdout v)) (stdout v'))))"
proof -
  have pass: "0 \<le> tm' \<and> tm' \<le> 59 \<and> 0 \<le> th'
         \<and> th' * 60 + tm'
             = th * 60 + tm + sum_list (map worked (drop (length (stdout w)) (stdout w')))"
    if t: "0 \<le> tm" "tm \<le> 59" and h: "0 \<le> th"
      and b: "readTimesForDay_body th tm w = (EndFound e, th', tm', w')"
  proof -
    from body_totals [OF b t] obtain new where
      n: "0 \<le> tm'" "tm' \<le> 59" "th \<le> th'" "stdout w' = stdout w @ new"
         "th' * 60 + tm' = th * 60 + tm + sum_list (map worked new)" by blast
    from n(4) have "drop (length (stdout w)) (stdout w') = new" by simp
    with n h show ?thesis by simp
  qed
  have day: "0 \<le> totalMinutes \<and> totalMinutes \<le> 59 \<and> 0 \<le> totalHours
         \<and> totalHours * 60 + totalMinutes
             = sum_list (map worked (drop (length (stdout v)) (stdout v')))"
    if "readTimesForDay 0 0 v = (r, totalHours, totalMinutes, v')"
  proof -
    from that have l: "readTimesForDay_loop 0 0 v = (r, totalHours, totalMinutes, v')"
      by (simp add: readTimesForDay_def)
    have z: "(0::int) \<le> 0" "(0::int) \<le> 59" by simp_all
    from loop_totals [OF z l] obtain new where
      n: "0 \<le> totalMinutes" "totalMinutes \<le> 59" "0 \<le> totalHours"
         "stdout v' = stdout v @ new"
         "totalHours * 60 + totalMinutes = sum_list (map worked new)" by auto
    from n(4) have "drop (length (stdout v)) (stdout v') = new" by simp
    with n show ?thesis by simp
  qed
  from pass day show ?thesis by blast
qed

text \<open>
  Two pairs of 1 hour 40 minutes and 45 minutes: after the first the totals are 1 and 40,
  at the end of the day 2 and 25.
\<close>

theorem accumulation_normalized_witness:
  "fst (readTimesForDay_body 0 0 (initial_world (''1:00pm-2:40pm, 3:00pm-3:45pm'' @ [newline])))
     = EndFound 0
   \<and> fst (readTimesForDay 0 0 (initial_world (''1:00pm-2:40pm, 3:00pm-3:45pm'' @ [newline]))) = 1
   \<and> fst (snd (readTimesForDay 0 0
               (initial_world (''1:00pm-2:40pm, 3:00pm-3:45pm'' @ [newline])))) = 2
   \<and> fst (snd (snd (readTimesForDay 0 0
               (initial_world (''1:00pm-2:40pm, 3:00pm-3:45pm'' @ [newline]))))) = 25
   \<and> sum_list (map worked (stdout (snd (snd (snd (readTimesForDay 0 0
               (initial_world (''1:00pm-2:40pm, 3:00pm-3:45pm'' @ [newline])))))))) = 2 * 60 + 25
   \<and> sum_list (map worked (stdout (snd (snd (snd (readTimesForDay_body 0 0
               (initial_world (''1:00pm-2:40pm, 3:00pm-3:45pm'' @ [newline])))))))) = 1 * 60 + 40"
proof -
  let ?W = "initial_world (''1:00pm-2:40pm, 3:00pm-3:45pm'' @ [newline])"
  let ?B = "readTimesForDay_body 0 0 ?W"
  let ?R = "readTimesForDay 0 0 ?W"
  have b: "fst ?B = EndFound 0" "fst (snd ?B) = 1" "fst (snd (snd ?B)) = 40"
    by code_simp+
  have r: "fst ?R = 1" "fst (snd ?R) = 2" "fst (snd (snd ?R)) = 25"
    by code_simp+
  have o: "drop (length (stdout ?W)) xs = xs" for xs :: "printed list"
    by (simp add: initial_world_def)
  have beq: "?B = (EndFound 0, 1, 40, snd (snd (snd ?B)))"
    using b by (cases ?B) simp
  have req: "?R = (1, 2, 25, snd (snd (snd ?R)))"
    using r by (cases ?R) simp
  have z: "(0::int) \<le> 0" "(0::int) \<le> 59" by simp_all
  from accumulation_normalized [THEN conjunct1, rule_format, OF z(1) z(2) z(1) beq]
  have 1: "sum_list (map worked (stdout (snd (snd (snd ?B))))) = 1 * 60 + 40"
    unfolding o by simp
  from accumulation_normalized [THEN conjunct2, rule_format, OF req]
  have 2: "sum_list (map worked (stdout (snd (snd (snd ?R))))) = 2 * 60 + 25"
    unfolding o by simp
  from b(1) r 1 2 show ?thesis by (intro conjI)
qed

subsection \<open>Days and the loop of \<^verbatim>\<open>main\<close>\<close>

lemma loop_state_loop:
  "loop_state n th tm w = Some (th', tm', w') \<Longrightarrow>
   readTimesForDay_loop th tm w = readTimesForDay_loop th' tm' w'"
proof (induction n arbitrary: th tm w)
  case 0
  then show ?case by simp
next
  case (Suc n)
  obtain p th1 tm1 w1 where b: "readTimesForDay_body th tm w = (p, th1, tm1, w1)"
    by (metis prod_cases4)
  from Suc.prems b obtain e where e: "p = EndFound e" "e \<noteq> 1" "e \<noteq> - 1"
    and s: "loop_state n th1 tm1 w1 = Some (th', tm', w')"
    by (cases p) (auto split: if_splits)
  from loop_unfold [OF b] e have "readTimesForDay_loop th tm w = readTimesForDay_loop th1 tm1 w1"
    by simp
  with Suc.IH [OF s] show ?case by simp
qed

lemma main_loop_step:
  "main_body w = (c, w') \<Longrightarrow> main_loop w = (if c \<noteq> 0 then main_loop w' else Some w')"
  by (subst main_loop.simps) simp

lemma day_state_loop:
  "day_state k w = Some w' \<Longrightarrow> main_loop w = main_loop w'"
proof (induction k arbitrary: w)
  case 0
  then show ?case by simp
next
  case (Suc k)
  obtain c w1 where b: "main_body w = (c, w1)" by (cases "main_body w") auto
  from Suc.prems b have c: "c \<noteq> 0" and s: "day_state k w1 = Some w'"
    by (auto split: if_splits)
  from main_loop_step [OF b] c have "main_loop w = main_loop w1" by simp
  with Suc.IH [OF s] show ?case by simp
qed

lemma day_state_Suc:
  "day_state k w = Some v \<Longrightarrow> main_body v = (c, v') \<Longrightarrow> c \<noteq> 0 \<Longrightarrow>
   day_state (Suc k) w = Some v'"
proof (induction k arbitrary: w)
  case 0
  then show ?case by simp
next
  case (Suc k)
  obtain c1 w1 where b: "main_body w = (c1, w1)" by (cases "main_body w") auto
  from Suc.prems(1) b have c: "c1 \<noteq> 0" and s: "day_state k w1 = Some v"
    by (auto split: if_splits)
  from Suc.IH [OF s Suc.prems(2,3)] have "day_state (Suc k) w1 = Some v'" .
  with b c show ?case by (simp del: day_state.simps(2) add: day_state.simps(2) [of "Suc k"])
qed

lemma main_body_stop:
  assumes "readTimesForDay 0 0 (printf_s [Prompt] v) = (r, th, tm, w')" "r \<noteq> - 1"
  shows "main_body v =
           (r, printf_s [RoundedTotalTime (fst (roundTime th tm)) (snd (roundTime th tm))]
                 (printf_s [ActualTotalTime th tm] w'))"
  using assms by (simp add: main_body_def Let_def split: prod.split)

lemma main_body_abort:
  assumes "readTimesForDay 0 0 (printf_s [Prompt] v) = (- 1, th, tm, w')"
  shows "main_body v = (1, w')"
  using assms by (simp add: main_body_def Let_def)

lemma loop_state_one:
  "readTimesForDay_body th tm w = (EndFound 0, th', tm', w') \<Longrightarrow>
   loop_state (Suc 0) th tm w = Some (th', tm', w')"
  by simp

lemma day_state_one:
  "main_body w = (c, w') \<Longrightarrow> c \<noteq> 0 \<Longrightarrow> day_state (Suc 0) w = Some w'"
  by simp

text \<open>
  Claim C4. Whenever both times of a pair are read successfully and are identical (same
  hour, same minute, same meridiem, compared in the 12-hour form before any conversion), the
  pass returns 0 at once: no difference is computed and the totals stay as the earlier pairs
  of the line left them. So the day returns the stop outcome, whatever the position \<open>n + 1\<close>
  of the pair in its line and whatever was accumulated before, and \<^verbatim>\<open>main\<close>, on whatever
  day \<open>k + 1\<close> this happens, prints the totals of that day and returns with status 0.
\<close>

theorem identical_pair_stops:
  assumes "day_state k (printf_s [Banner] u) = Some v"
    and "loop_state n 0 0 (printf_s [Prompt] v) = Some (totalHours, totalMinutes, w)"
    and "readTime (startHour0 (indet w (frames w))) (startMinute0 (indet w (frames w)))
           (startMeridiem0 (indet w (frames w))) (w\<lparr>frames := Suc (frames w)\<rparr>)
          = (0, hour, minute, meridiem, w1)"
    and "readTime (endHour0 (indet w (frames w))) (endMinute0 (indet w (frames w)))
           (endMeridiem0 (indet w (frames w))) (snd (clearBufferJunk (of_char CHR ''-'') w1))
          = (0, hour, minute, meridiem, w3)"
    and "w4 = printf_s [BlankLine, EchoStart hour minute meridiem,
                        EchoEnd hour minute meridiem] w3"
    and "w5 = printf_s [RoundedTotalTime (fst (roundTime totalHours totalMinutes))
                                         (snd (roundTime totalHours totalMinutes))]
                (printf_s [ActualTotalTime totalHours totalMinutes] w4)"
  shows "readTimesForDay_body totalHours totalMinutes w
           = (Returned 0, totalHours, totalMinutes, w4)
         \<and> readTimesForDay 0 0 (printf_s [Prompt] v) = (0, totalHours, totalMinutes, w4)
         \<and> main_body v = (0, w5)
         \<and> main u = Some (0, w5)"
proof -
  have b: "readTimesForDay_body totalHours totalMinutes w
           = (Returned 0, totalHours, totalMinutes, w4)"
    using assms(3,4,5) by (simp add: readTimesForDay_body_def Let_def)
  have "readTimesForDay_loop totalHours totalMinutes w = (0, totalHours, totalMinutes, w4)"
    using loop_unfold [OF b] by simp
  with loop_state_loop [OF assms(2)]
  have s: "readTimesForDay 0 0 (printf_s [Prompt] v) = (0, totalHours, totalMinutes, w4)"
    by (simp add: readTimesForDay_def)
  have m: "main_body v = (0, w5)"
    using main_body_stop [OF s] assms(6) by simp
  have "main_loop v = Some w5"
    using main_loop_step [OF m] by simp
  with day_state_loop [OF assms(1)] have "main u = Some (0, w5)"
    by (simp add: main_def)
  with b s m show ?thesis by (intro conjI)
qed


text \<open>
  An identical pair in second place, after a pair of four hours: the program stops with
  status 0, the four hours are the total of the day, and the third pair is never read.
\<close>

theorem identical_pair_stops_witness:
  "map_option fst (main (initial_world
        (''9:00am-1:00pm, 1:00pm-1:00pm, 2:00pm-3:00pm'' @ [newline]))) = Some 0
   \<and> map_option (\<lambda>r. (stdin (snd r), stdout (snd r)))
        (main (initial_world (''9:00am-1:00pm, 1:00pm-1:00pm, 2:00pm-3:00pm'' @ [newline])))
     = Some (''m, 2:00pm-3:00pm'' @ [newline],
        [Banner, Prompt, BlankLine, EchoStart 9 0 CHR ''a'', EchoEnd 1 0 CHR ''p'', ActualTime 4 0,
         BlankLine, EchoStart 1 0 CHR ''p'', EchoEnd 1 0 CHR ''p'',
         ActualTotalTime 4 0, RoundedTotalTime 4 0])"
proof -
  let ?U = "initial_world (''9:00am-1:00pm, 1:00pm-1:00pm, 2:00pm-3:00pm'' @ [newline])"
  let ?V = "printf_s [Banner] ?U"
  let ?B = "readTimesForDay_body 0 0 (printf_s [Prompt] ?V)"
  let ?W = "snd (snd (snd ?B))"
  let ?L = "indet ?W (frames ?W)"
  let ?R1 = "readTime (startHour0 ?L) (startMinute0 ?L) (startMeridiem0 ?L)
               (?W\<lparr>frames := Suc (frames ?W)\<rparr>)"
  let ?W1 = "snd (snd (snd (snd ?R1)))"
  let ?R2 = "readTime (endHour0 ?L) (endMinute0 ?L) (endMeridiem0 ?L)
               (snd (clearBufferJunk (of_char CHR ''-'') ?W1))"
  let ?W3 = "snd (snd (snd (snd ?R2)))"
  let ?W5 = "printf_s [RoundedTotalTime (fst (roundTime 4 0)) (snd (roundTime 4 0))]
                (printf_s [ActualTotalTime 4 0]
                  (printf_s [BlankLine, EchoStart 1 0 CHR ''p'', EchoEnd 1 0 CHR ''p''] ?W3))"
  have b: "(case ?B of (p, th, tm, w) \<Rightarrow> (p, th, tm)) = (EndFound 0, 4, 0)"
    by code_simp
  have r1: "(case ?R1 of (r, h, m, c, w) \<Rightarrow> (r, h, m, c)) = (0, 1, 0, CHR ''p'')"
    by code_simp
  have r2: "(case ?R2 of (r, h, m, c, w) \<Rightarrow> (r, h, m, c)) = (0, 1, 0, CHR ''p'')"
    by code_simp
  have h1: "day_state 0 ?V = Some ?V" by simp
  have beq: "?B = (EndFound 0, 4, 0, ?W)" using b by (cases ?B) simp
  have h2: "loop_state (Suc 0) 0 0 (printf_s [Prompt] ?V) = Some (4, 0, ?W)"
    by (rule loop_state_one [OF beq])
  have h3: "?R1 = (0, 1, 0, CHR ''p'', ?W1)" using r1 by (cases ?R1) simp
  have h4: "?R2 = (0, 1, 0, CHR ''p'', ?W3)" using r2 by (cases ?R2) simp
  from identical_pair_stops [OF h1 h2 h3 h4 refl refl]
  have m: "main ?U = Some (0, ?W5)" by (elim conjE)
  have o: "(stdin ?W5, stdout ?W5) = (''m, 2:00pm-3:00pm'' @ [newline],
        [Banner, Prompt, BlankLine, EchoStart 9 0 CHR ''a'', EchoEnd 1 0 CHR ''p'', ActualTime 4 0,
         BlankLine, EchoStart 1 0 CHR ''p'', EchoEnd 1 0 CHR ''p'',
         ActualTotalTime 4 0, RoundedTotalTime 4 0])"
    by code_simp
  show ?thesis unfolding m using o by simp
qed

subsection \<open>A time that is refused\<close>

lemma clearBufferJunk_newline:
  "snd (clearBufferJunk (of_char newline) w)
     = w\<lparr>stdin := drop 1 (dropWhile (\<lambda>c. c \<noteq> newline) (stdin w))\<rparr>"
proof (cases "dropWhile (\<lambda>c. c \<noteq> newline) (stdin w)")
  case Nil
  then show ?thesis by (simp add: clearBufferJunk_dropWhile Nil)
next
  case (Cons c cs)
  then show ?thesis by (simp add: clearBufferJunk_dropWhile Cons)
qed

text \<open>
  Claim C5. If the start time or the end time of a pair is refused, at any position
  \<open>n + 1\<close> of the line, the day returns the abort outcome -1 after the rest of the input
  up to and including the next newline has been discarded. \<^verbatim>\<open>main\<close> then prints no total
  for the day: it goes on to the next day in the world the day left behind, and the totals
  that the earlier pairs of the line had reached are dropped. The next day starts from 0
  hours and 0 minutes, so that the total it prints, if it prints one, is the sum of the
  actual times printed after the abort.
\<close>

theorem failed_time_aborts_day:
  assumes "day_state k (printf_s [Banner] u) = Some v"
    and "loop_state n 0 0 (printf_s [Prompt] v) = Some (totalHours, totalMinutes, w)"
    and "readTime (startHour0 (indet w (frames w))) (startMinute0 (indet w (frames w)))
           (startMeridiem0 (indet w (frames w))) (w\<lparr>frames := Suc (frames w)\<rparr>)
          = (r1, sh, sm, sc, w1)"
    and "readTime (endHour0 (indet w (frames w))) (endMinute0 (indet w (frames w)))
           (endMeridiem0 (indet w (frames w))) (snd (clearBufferJunk (of_char CHR ''-'') w1))
          = (r2, eh, em, ec, w3)"
    and "r1 = - 1 \<or> r2 = - 1"
    and "wa = (if r1 = - 1 then printf_s [StartTimeWrong] w1 else printf_s [EndTimeWrong] w3)"
    and "w' = wa\<lparr>stdin := drop 1 (dropWhile (\<lambda>c. c \<noteq> newline) (stdin wa))\<rparr>"
  shows "readTimesForDay 0 0 (printf_s [Prompt] v) = (- 1, totalHours, totalMinutes, w')
         \<and> main_body v = (1, w')
         \<and> day_state (Suc k) (printf_s [Banner] u) = Some w'
         \<and> main u = map_option (Pair 0) (main_loop w')
         \<and> (readTimesForDay 0 0 (printf_s [Prompt] w') = (r', totalHours', totalMinutes', w'')
              \<longrightarrow> r' \<noteq> - 1
              \<longrightarrow> main_body w'
                    = (r', printf_s [RoundedTotalTime (fst (roundTime totalHours' totalMinutes'))
                                                    (snd (roundTime totalHours' totalMinutes'))]
                            (printf_s [ActualTotalTime totalHours' totalMinutes'] w''))
                  \<and> totalHours' * 60 + totalMinutes'
                    = sum_list (map worked (drop (length (stdout w')) (stdout w''))))"
proof -
  have b: "readTimesForDay_body totalHours totalMinutes w
           = (Returned (- 1), totalHours, totalMinutes, w')"
  proof (cases "r1 = - 1")
    case True
    then show ?thesis
      using assms(3,6,7)
      by (simp add: readTimesForDay_body_def Let_def clearBufferJunk_newline)
  next
    case False
    with assms(5) have "r2 = - 1" by simp
    with False show ?thesis
      using assms(3,4,6,7)
      by (simp add: readTimesForDay_body_def Let_def clearBufferJunk_newline)
  qed
  have "readTimesForDay_loop totalHours totalMinutes w = (- 1, totalHours, totalMinutes, w')"
    using loop_unfold [OF b] by simp
  with loop_state_loop [OF assms(2)]
  have s: "readTimesForDay 0 0 (printf_s [Prompt] v) = (- 1, totalHours, totalMinutes, w')"
    by (simp add: readTimesForDay_def)
  note m = main_body_abort [OF s]
  have one: "(1::int) \<noteq> 0" by simp
  note d = day_state_Suc [OF assms(1) m one]
  have "main_loop (printf_s [Banner] u) = main_loop w'"
    using day_state_loop [OF d] .
  then have mu: "main u = map_option (Pair 0) (main_loop w')"
    by (simp add: main_def)
  have nxt: "main_body w'
                    = (r', printf_s [RoundedTotalTime (fst (roundTime totalHours' totalMinutes'))
                                                    (snd (roundTime totalHours' totalMinutes'))]
                            (printf_s [ActualTotalTime totalHours' totalMinutes'] w''))
                  \<and> totalHours' * 60 + totalMinutes'
                    = sum_list (map worked (drop (length (stdout w')) (stdout w'')))"
    if r: "readTimesForDay 0 0 (printf_s [Prompt] w') = (r', totalHours', totalMinutes', w'')"
      and ne: "r' \<noteq> - 1"
  proof -
    from r have l: "readTimesForDay_loop 0 0 (printf_s [Prompt] w')
                     = (r', totalHours', totalMinutes', w'')"
      by (simp add: readTimesForDay_def)
    have z: "(0::int) \<le> 0" "(0::int) \<le> 59" by simp_all
    from loop_totals [OF z l] obtain new where
      n: "stdout w'' = stdout (printf_s [Prompt] w') @ new"
         "totalHours' * 60 + totalMinutes' = sum_list (map worked new)" by auto
    from n(1) have "drop (length (stdout w')) (stdout w'') = Prompt # new"
      by (simp add: printf_s_def)
    with n(2) main_body_stop [OF r ne] show ?thesis by simp
  qed
  from s m d mu nxt show ?thesis by blast
qed


text \<open>
  The definitions to unfold when a pass is run on a given input.
\<close>

lemmas run_defs = zero_world_def zero_locals_def readTimesForDay_body_def readTime_def
  scanf_time_def scan_d_def isspace_def isdigit_def digits_value_def validTime_def printf_s_def
  clearBufferJunk_def timeDifference_def toMilitaryTime_def addToTotal_def newline_def EOF_def
  Let_def

lemma printf_s_zero_world:
  "printf_s msgs (zero_world inp out n) = zero_world inp (out @ msgs) n"
  by (simp add: zero_world_def printf_s_def)

text \<open>
  The line \<^verbatim>\<open>9:00am-1:00pm, 13:00pm-2:00pm\<close>: the first pair counts four hours, the hour 13
  of the second is refused, the day is abandoned and the rest of the line discarded. The
  next line, \<^verbatim>\<open>2:00pm-4:30pm\<close>, gives a total of 2 hours 30 minutes: the four hours are gone.
\<close>

theorem failed_time_aborts_day_witness:
  "readTimesForDay 0 0
      (zero_world (''9:00am-1:00pm, 13:00pm-2:00pm'' @ [newline] @ ''2:00pm-4:30pm'' @ [newline])
         [Banner, Prompt] 0)
     = (- 1, 4, 0,
        zero_world (''2:00pm-4:30pm'' @ [newline])
          [Banner, Prompt, BlankLine, EchoStart 9 0 CHR ''a'', EchoEnd 1 0 CHR ''p'',
           ActualTime 4 0, HourTooBig 13, StartTimeWrong] 2)
   \<and> main_body
      (zero_world (''9:00am-1:00pm, 13:00pm-2:00pm'' @ [newline] @ ''2:00pm-4:30pm'' @ [newline])
         [Banner] 0)
     = (1, zero_world (''2:00pm-4:30pm'' @ [newline])
          [Banner, Prompt, BlankLine, EchoStart 9 0 CHR ''a'', EchoEnd 1 0 CHR ''p'',
           ActualTime 4 0, HourTooBig 13, StartTimeWrong] 2)
   \<and> main_body
      (zero_world (''2:00pm-4:30pm'' @ [newline])
          [Banner, Prompt, BlankLine, EchoStart 9 0 CHR ''a'', EchoEnd 1 0 CHR ''p'',
           ActualTime 4 0, HourTooBig 13, StartTimeWrong] 2)
     = (1, zero_world []
          [Banner, Prompt, BlankLine, EchoStart 9 0 CHR ''a'', EchoEnd 1 0 CHR ''p'',
           ActualTime 4 0, HourTooBig 13, StartTimeWrong,
           Prompt, BlankLine, EchoStart 2 0 CHR ''p'', EchoEnd 4 30 CHR ''p'', ActualTime 2 30,
           ActualTotalTime 2 30, RoundedTotalTime 2 30] 3)"
proof -
  let ?inp = "''9:00am-1:00pm, 13:00pm-2:00pm'' @ [newline] @ ''2:00pm-4:30pm'' @ [newline]"
  let ?out1 = "[Banner, Prompt, BlankLine, EchoStart 9 0 CHR ''a'', EchoEnd 1 0 CHR ''p'',
               ActualTime 4 0]"
  let ?U = "zero_world ?inp [] 0"
  let ?V = "zero_world ?inp [Banner] 0"
  let ?W = "zero_world ('' 13:00pm-2:00pm'' @ [newline] @ ''2:00pm-4:30pm'' @ [newline]) ?out1 1"
  let ?W1 = "zero_world (''m-2:00pm'' @ [newline] @ ''2:00pm-4:30pm'' @ [newline])
               (?out1 @ [HourTooBig 13]) 2"
  let ?W3 = "zero_world (''m'' @ [newline] @ ''2:00pm-4:30pm'' @ [newline])
               (?out1 @ [HourTooBig 13]) 2"
  let ?W' = "zero_world (''2:00pm-4:30pm'' @ [newline]) (?out1 @ [HourTooBig 13, StartTimeWrong]) 2"
  let ?out2 = "?out1 @ [HourTooBig 13, StartTimeWrong, Prompt, BlankLine, EchoStart 2 0 CHR ''p'',
                        EchoEnd 4 30 CHR ''p'', ActualTime 2 30]"
  let ?W'' = "zero_world [] ?out2 3"
  have v: "printf_s [Banner] ?U = ?V" "printf_s [Prompt] ?V = zero_world ?inp [Banner, Prompt] 0"
    by (simp_all add: printf_s_zero_world)
  have h1: "day_state 0 (printf_s [Banner] ?U) = Some ?V" by (simp add: printf_s_zero_world)
  have b: "readTimesForDay_body 0 0 (printf_s [Prompt] ?V) = (EndFound 0, 4, 0, ?W)"
    by (simp add: run_defs)
  note h2 = loop_state_one [OF b]
  have h3: "readTime (startHour0 (indet ?W (frames ?W))) (startMinute0 (indet ?W (frames ?W)))
              (startMeridiem0 (indet ?W (frames ?W))) (?W\<lparr>frames := Suc (frames ?W)\<rparr>)
            = (- 1, 13, 0, CHR ''p'', ?W1)"
    by (simp add: run_defs)
  have h4: "readTime (endHour0 (indet ?W (frames ?W))) (endMinute0 (indet ?W (frames ?W)))
              (endMeridiem0 (indet ?W (frames ?W))) (snd (clearBufferJunk (of_char CHR ''-'') ?W1))
            = (0, 2, 0, CHR ''p'', ?W3)"
    by (simp add: run_defs)
  have h5: "(- 1 :: int) = - 1 \<or> (0 :: int) = - 1" by simp
  have h7: "?W' = (if (- 1 :: int) = - 1 then printf_s [StartTimeWrong] ?W1
                   else printf_s [EndTimeWrong] ?W3)
               \<lparr>stdin := drop 1 (dropWhile (\<lambda>c. c \<noteq> newline)
                   (stdin (if (- 1 :: int) = - 1 then printf_s [StartTimeWrong] ?W1
                           else printf_s [EndTimeWrong] ?W3)))\<rparr>"
    by (simp add: zero_world_def printf_s_def newline_def)
  have nb: "readTimesForDay_body 0 0 (printf_s [Prompt] ?W') = (EndFound 1, 2, 30, ?W'')"
    by (simp add: run_defs)
  have nl: "readTimesForDay 0 0 (printf_s [Prompt] ?W') = (1, 2, 30, ?W'')"
    using loop_unfold [OF nb] by (simp add: readTimesForDay_def)
  have ne: "(1::int) \<noteq> - 1" by simp
  have rt: "roundTime 2 30 = (2, 30)" by (simp add: roundTime_def c_div_def)
  note t = failed_time_aborts_day [OF h1 h2 h3 h4 h5 refl h7]
  have s: "readTimesForDay 0 0 (printf_s [Prompt] ?V) = (- 1, 4, 0, ?W')"
    by (rule t [THEN conjunct1])
  have m: "main_body ?V = (1, ?W')"
    by (rule t [THEN conjunct2, THEN conjunct1])
  from t [THEN conjunct2, THEN conjunct2, THEN conjunct2, THEN conjunct2, rule_format, OF nl ne]
  have m2: "main_body ?W'
       = (1, printf_s [RoundedTotalTime (fst (roundTime 2 30)) (snd (roundTime 2 30))]
               (printf_s [ActualTotalTime 2 30] ?W''))"
    by (rule conjunct1)
  have w3: "printf_s [RoundedTotalTime (fst (roundTime 2 30)) (snd (roundTime 2 30))]
               (printf_s [ActualTotalTime 2 30] ?W'')
            = zero_world [] (?out2 @ [ActualTotalTime 2 30, RoundedTotalTime 2 30]) 3"
    by (simp add: rt printf_s_zero_world)
  from s m m2 show ?thesis
    unfolding w3 v by simp
qed

subsection \<open>End of input\<close>
























end
